theory Spec2Isabelle
  imports Complex_Main
begin

section \<open>The download registry of \<^verbatim>\<open>volumes/webshare/app.py\<close>\<close>

text \<open>
  The module keeps one global dictionary, \<^verbatim>\<open>active_downloads\<close>, from a file id to a
  dictionary of fields. The route \<^verbatim>\<open>/api/download\<close> reads it and starts a thread that
  runs \<^verbatim>\<open>download_file_background\<close>; that thread writes the entry of its file id, and
  on success starts a second thread, \<^verbatim>\<open>cleanup\<close>, which sleeps 30 seconds and deletes
  the entry.

  Strings are Python \<^verbatim>\<open>str\<close>, integers are Python's unbounded \<^verbatim>\<open>int\<close>. A key that a
  dictionary does not hold is \<open>None\<close> of an option type. Request fields and the
  remote service's answers are taken to be strings and integers where the code uses them
  as such.
\<close>

subsection \<open>Python text helpers\<close>

fun str_nat :: "nat \<Rightarrow> string" where
  "str_nat n =
     (if n < 10 then [''0123456789'' ! n]
      else str_nat (n div 10) @ [''0123456789'' ! (n mod 10)])"

declare str_nat.simps [simp del]

definition str_int :: "int \<Rightarrow> string" where
  "str_int i = (if i < 0 then CHR ''-'' # str_nat (nat (- i)) else str_nat (nat i))"

text \<open>\<^verbatim>\<open>str(x)\<close> inside an f-string, for a value that is a string or \<^verbatim>\<open>None\<close>.\<close>

definition str_opt :: "string option \<Rightarrow> string" where
  "str_opt x = (case x of None \<Rightarrow> ''None'' | Some s \<Rightarrow> s)"

text \<open>Python truthiness of a value that is a string or \<^verbatim>\<open>None\<close>.\<close>

definition truthy :: "string option \<Rightarrow> bool" where
  "truthy x = (case x of None \<Rightarrow> False | Some s \<Rightarrow> s \<noteq> [])"

text \<open>\<^verbatim>\<open>os.path.join(a, b)\<close> of \<^verbatim>\<open>posixpath\<close>, for two components.\<close>

definition os_path_join :: "string \<Rightarrow> string \<Rightarrow> string" where
  "os_path_join a b =
     (if b \<noteq> [] \<and> hd b = CHR ''/'' then b
      else if a = [] \<or> last a = CHR ''/'' then a @ b
      else a @ ''/'' @ b)"

subsection \<open>Configuration, registry entries, log\<close>

text \<open>
  The module-level constants read from the environment at start. \<^verbatim>\<open>PLEX_URL\<close> only
  builds the address of the refresh call, whose outcome is an input of the model.
\<close>

record config =
  MOVIES_PATH :: string
  SERIES_PATH :: string
  PLEX_TOKEN :: string

text \<open>
  Library code that is not in the module: \<^verbatim>\<open>repr\<close> of a string (the text of a
  \<^verbatim>\<open>KeyError\<close>) and \<^verbatim>\<open>webshare_client._format_file_size\<close>. Both are parameters.
\<close>

record lib =
  repr :: "string \<Rightarrow> string"
  format_file_size :: "nat \<Rightarrow> string"

text \<open>
  One value of \<^verbatim>\<open>active_downloads\<close>. The keys \<^verbatim>\<open>status\<close>, \<^verbatim>\<open>fileName\<close>,
  \<^verbatim>\<open>progress\<close> and \<^verbatim>\<open>message\<close> are in both dictionary literals of the source, so they
  are always present; \<open>fileName = None\<close> is Python's \<^verbatim>\<open>None\<close>. For the other fields
  \<open>None\<close> says that the key is absent. The status is the string the code stores.
\<close>

record entry =
  status :: string
  fileName :: "string option"
  progress :: int
  message :: string
  startTime :: "real option"
  totalSize :: "int option"
  downloadedSize :: "nat option"
  filePath :: "string option"
  finalSize :: "nat option"
  error :: "string option"

type_synonym registry = "string \<rightharpoonup> entry"

datatype level = INFO | WARNING | ERROR

type_synonym log_line = "level \<times> string"

subsection \<open>The route \<^verbatim>\<open>/api/download\<close>\<close>

text \<open>
  The JSON object of the request; \<open>None\<close> is a key that is absent. The argument of
  \<open>download\<close> is \<open>Inl e\<close> when \<^verbatim>\<open>request.get_json()\<close> or \<^verbatim>\<open>data.get\<close> raises \<open>e\<close>.
\<close>

record req_data =
  req_fileId :: "string option"
  req_fileName :: "string option"
  req_contentType :: "string option"

text \<open>One constructor for each \<^verbatim>\<open>return jsonify(...)\<close> of the route.\<close>

datatype response =
    Reply400 string
  | ReplyInProgress string string int
  | ReplyStarted string string
  | Reply500 string

text \<open>
  What one call of the route does: its reply, the arguments of the thread it starts (if
  any) and what it logs. It reads \<^verbatim>\<open>active_downloads\<close> and never writes it. The reads
  of one call are taken from one state of the registry.
\<close>

record outcome =
  reply :: response
  spawn :: "(string \<times> string option \<times> string) option"
  logged :: "log_line list"

definition download :: "config \<Rightarrow> registry \<Rightarrow> string + req_data \<Rightarrow> outcome" where
  "download cfg active body =
     (case body of
        Inl e \<Rightarrow> \<lparr>reply = Reply500 e, spawn = None, logged = [(ERROR, ''Download error: '' @ e)]\<rparr>
      | Inr data \<Rightarrow>
          (let file_id = req_fileId data;
               file_name = req_fileName data;
               content_type = (case req_contentType data of None \<Rightarrow> ''movie'' | Some c \<Rightarrow> c)
           in if \<not> truthy file_id
              then \<lparr>reply = Reply400 ''File ID is required'', spawn = None, logged = []\<rparr>
              else
                (let download_path =
                       (if content_type = ''series'' then SERIES_PATH cfg else MOVIES_PATH cfg);
                     line = (INFO, ''Downloading '' @ str_opt file_name @ '' as '' @ content_type
                                     @ '' to '' @ download_path)
                 in case active (the file_id) of
                      Some e \<Rightarrow>
                        \<lparr>reply = ReplyInProgress
                                   (''Download already in progress: '' @ str_opt file_name)
                                   (status e) (progress e),
                         spawn = None, logged = [line]\<rparr>
                    | None \<Rightarrow>
                        \<lparr>reply = ReplyStarted (''Download started: '' @ str_opt file_name)
                                   (the file_id),
                         spawn = Some (the file_id, file_name, download_path),
                         logged = [line]\<rparr>)))"

subsection \<open>What the background thread meets\<close>

text \<open>
  The outcomes of the calls \<^verbatim>\<open>download_file_background\<close> makes outside the module, in
  the order of the source. \<open>Inl e\<close> and \<open>Some e\<close> in an error position say that the call
  raises an exception whose \<^verbatim>\<open>str\<close> is \<open>e\<close>. The calls of the logger, of
  \<^verbatim>\<open>_format_file_size\<close> and of \<^verbatim>\<open>Thread.start\<close> are taken to return.
\<close>

record download_info =
  info_downloadUrl :: "string option"
  info_fileSize :: "int option"
  info_fileName :: "string option"

text \<open>A chunk of \<^verbatim>\<open>iter_content\<close>: its length, and the error of \<^verbatim>\<open>f.write\<close> if it raises.\<close>

datatype chunk = Chunk nat "string option"

text \<open>
  The streamed response: \<open>content_length\<close> is \<open>None\<close> when the header is absent, and
  otherwise what \<^verbatim>\<open>int(...)\<close> makes of it; \<open>stream_error\<close> is raised by the iterator (or
  by closing the file) after the last chunk.
\<close>

record http_response =
  raise_for_status :: "string option"
  content_length :: "(string + int) option"
  iter_content :: "chunk list"
  stream_error :: "string option"

record world =
  time_time :: real
  initiate_download :: "string + download_info"
  os_makedirs :: "string option"
  session_get :: "string + http_response"
  open_file :: "string option"
  os_chmod :: "string option"
  requests_put :: "string + int"

subsection \<open>The steps of the background thread\<close>

text \<open>
  The thread is a sequence of steps on the shared registry: a whole-entry assignment
  \<^verbatim>\<open>active_downloads[file_id] = {...}\<close>, a field assignment
  \<^verbatim>\<open>active_downloads[file_id][k] = v\<close> (a \<^verbatim>\<open>KeyError\<close> when the entry is gone), the
  rebinding of the local \<^verbatim>\<open>file_name\<close>, a log line, an exception raised by an outside
  call, and the start of the \<^verbatim>\<open>cleanup\<close> thread with its sleep in seconds. Each of
  them is one step: other threads run between two steps, not within one.
\<close>

datatype field =
    Status string
  | Progress int
  | Message string
  | TotalSize int
  | DownloadedSize nat
  | FilePath string
  | FinalSize nat

datatype action =
    Assign entry
  | Update field
  | Rebind string
  | Log level string
  | Raise string
  | StartCleanup nat

fun set_field :: "field \<Rightarrow> entry \<Rightarrow> entry" where
  "set_field (Status v) e = e\<lparr>status := v\<rparr>"
| "set_field (Progress v) e = e\<lparr>progress := v\<rparr>"
| "set_field (Message v) e = e\<lparr>message := v\<rparr>"
| "set_field (TotalSize v) e = e\<lparr>totalSize := Some v\<rparr>"
| "set_field (DownloadedSize v) e = e\<lparr>downloadedSize := Some v\<rparr>"
| "set_field (FilePath v) e = e\<lparr>filePath := Some v\<rparr>"
| "set_field (FinalSize v) e = e\<lparr>finalSize := Some v\<rparr>"

text \<open>
  Lines 148 to 158: the loop over the chunks. It returns the registry steps it makes and
  either the exception that ends it or the final \<^verbatim>\<open>downloaded_size\<close>. The quotient
  \<^verbatim>\<open>int((downloaded_size / total_size) * 80)\<close> is taken exactly.
\<close>

fun write_chunks :: "int \<Rightarrow> nat \<Rightarrow> chunk list \<Rightarrow> string option \<Rightarrow> action list \<times> (string + nat)" where
  "write_chunks total_size downloaded_size [] end =
     ([], case end of Some e \<Rightarrow> Inl e | None \<Rightarrow> Inr downloaded_size)"
| "write_chunks total_size downloaded_size (Chunk n w # chunks) end =
     (if n = 0 then write_chunks total_size downloaded_size chunks end
      else case w of
             Some e \<Rightarrow> ([], Inl e)
           | None \<Rightarrow>
               (let downloaded_size' = downloaded_size + n;
                    progress = min 90 (10 + (int downloaded_size' * 80) div total_size);
                    steps = (if total_size > 0
                             then [Update (Progress progress),
                                   Update (Message (''Downloading... '' @ str_int (progress - 10) @ ''%'')),
                                   Update (DownloadedSize downloaded_size')]
                             else []);
                    rest = write_chunks total_size downloaded_size' chunks end
                in (steps @ fst rest, snd rest)))"

text \<open>Lines 160 to 196: after the loop.\<close>

definition after_stream :: "config \<Rightarrow> lib \<Rightarrow> world \<Rightarrow> string \<Rightarrow> string \<Rightarrow> nat \<Rightarrow> action list" where
  "after_stream cfg L w file_name file_path downloaded_size =
     [case os_chmod w of
        None \<Rightarrow> Log INFO (''Set file permissions to 644 for '' @ file_name)
      | Some e \<Rightarrow> Log WARNING (''Could not set file permissions for '' @ file_name @ '': '' @ e),
      Update (Status ''completed''),
      Update (Progress 100),
      Update (Message ''Download completed!''),
      Update (FilePath file_path),
      Update (FinalSize downloaded_size),
      Log INFO (''Download completed: '' @ file_name @ '' ('' @ format_file_size L downloaded_size @ '')''),
      if PLEX_TOKEN cfg \<noteq> []
      then (case requests_put w of
              Inl e \<Rightarrow> Log ERROR (''Error triggering Plex library refresh: '' @ e)
            | Inr status_code \<Rightarrow>
                if status_code = 200 then Log INFO ''Successfully triggered Plex library refresh''
                else Log WARNING (''Plex API returned status code: '' @ str_int status_code))
      else Log WARNING ''PLEX_TOKEN not configured, skipping library refresh'',
      StartCleanup 30]"

text \<open>Lines 124 to 158: from \<^verbatim>\<open>os.makedirs\<close> to the end of the loop, then \<open>after_stream\<close>.\<close>

definition transfer :: "config \<Rightarrow> lib \<Rightarrow> world \<Rightarrow> int \<Rightarrow> string \<Rightarrow> string \<Rightarrow> action list" where
  "transfer cfg L w expected_size file_name download_path =
     (case os_makedirs w of
        Some e \<Rightarrow> [Raise e]
      | None \<Rightarrow>
          (let file_path = os_path_join download_path file_name
           in [Update (Message ''Connecting to server...''),
               Update (Progress 5),
               Log INFO (''Starting download of '' @ file_name @ ''...'')] @
              (case session_get w of
                 Inl e \<Rightarrow> [Raise e]
               | Inr response \<Rightarrow>
                   (case raise_for_status response of
                      Some e \<Rightarrow> [Raise e]
                    | None \<Rightarrow>
                        (case (case content_length response of
                                 None \<Rightarrow> Inr expected_size
                               | Some parsed \<Rightarrow> parsed) of
                           Inl e \<Rightarrow> [Raise e]
                         | Inr total_size \<Rightarrow>
                             [Update (Message ''Downloading... 0%''),
                              Update (Progress 10),
                              Update (TotalSize total_size)] @
                             (case open_file w of
                                Some e \<Rightarrow> [Raise e]
                              | None \<Rightarrow>
                                  (case write_chunks total_size 0 (iter_content response)
                                          (stream_error response) of
                                     (steps, Inl e) \<Rightarrow> steps @ [Raise e]
                                   | (steps, Inr downloaded_size) \<Rightarrow>
                                       steps @ after_stream cfg L w file_name file_path
                                                 downloaded_size)))))))"

text \<open>
  Lines 104 to 206. The \<^verbatim>\<open>except\<close> clause is \<open>except_handler\<close> below: a \<open>Raise\<close> step or
  a \<^verbatim>\<open>KeyError\<close> of a field assignment enters it.
\<close>

definition download_file_background ::
  "config \<Rightarrow> lib \<Rightarrow> world \<Rightarrow> string \<Rightarrow> string option \<Rightarrow> string \<Rightarrow> action list" where
  "download_file_background cfg L w file_id file_name download_path =
     Assign \<lparr>status = ''downloading'', fileName = file_name, progress = 0,
             message = ''Starting download...'', startTime = Some (time_time w),
             totalSize = None, downloadedSize = None, filePath = None, finalSize = None,
             error = None\<rparr> #
     (case initiate_download w of
        Inl e \<Rightarrow> [Raise e]
      | Inr info \<Rightarrow>
          (case info_downloadUrl info of
             None \<Rightarrow> [Raise (repr L ''downloadUrl'')]
           | Some download_url \<Rightarrow>
               (let expected_size = (case info_fileSize info of None \<Rightarrow> 0 | Some n \<Rightarrow> n)
                in if \<not> truthy file_name
                   then (case info_fileName info of
                           None \<Rightarrow> [Raise (repr L ''fileName'')]
                         | Some name \<Rightarrow>
                             Rebind name # transfer cfg L w expected_size name download_path)
                   else transfer cfg L w expected_size (the file_name) download_path)))"

subsection \<open>Running steps on the shared state\<close>

text \<open>
  What the threads share: the registry, the \<^verbatim>\<open>cleanup\<close> threads that are asleep (file
  id and seconds), and the log.
\<close>

record shared =
  active_downloads :: registry
  cleanups :: "(string \<times> nat) list"
  logs :: "log_line list"

text \<open>Lines 198 to 206: the \<^verbatim>\<open>except Exception as e\<close> clause.\<close>

definition except_handler :: "string \<Rightarrow> string \<Rightarrow> string option \<Rightarrow> 'a shared_scheme \<Rightarrow> 'a shared_scheme" where
  "except_handler e file_id file_name s =
     s\<lparr>logs := logs s @ [(ERROR, ''Background download failed: '' @ e)],
       active_downloads := (active_downloads s)(file_id \<mapsto>
         \<lparr>status = ''error'', fileName = file_name, progress = 0,
          message = ''Download failed: '' @ e, startTime = None, totalSize = None,
          downloadedSize = None, filePath = None, finalSize = None, error = Some e\<rparr>)\<rparr>"

text \<open>
  One step of the thread for \<open>file_id\<close> whose local \<^verbatim>\<open>file_name\<close> is \<open>file_name\<close>: the new
  shared state, the new \<^verbatim>\<open>file_name\<close>, and whether the thread goes on (\<open>False\<close> after the
  \<^verbatim>\<open>except\<close> clause).
\<close>

fun perform ::
  "lib \<Rightarrow> string \<Rightarrow> string option \<Rightarrow> action \<Rightarrow> 'a shared_scheme \<Rightarrow> 'a shared_scheme \<times> string option \<times> bool" where
  "perform L file_id file_name (Assign e) s =
     (s\<lparr>active_downloads := (active_downloads s)(file_id \<mapsto> e)\<rparr>, file_name, True)"
| "perform L file_id file_name (Update f) s =
     (case active_downloads s file_id of
        None \<Rightarrow> (except_handler (repr L file_id) file_id file_name s, file_name, False)
      | Some e \<Rightarrow>
          (s\<lparr>active_downloads := (active_downloads s)(file_id \<mapsto> set_field f e)\<rparr>, file_name, True))"
| "perform L file_id file_name (Rebind name) s = (s, Some name, True)"
| "perform L file_id file_name (Log l m) s = (s\<lparr>logs := logs s @ [(l, m)]\<rparr>, file_name, True)"
| "perform L file_id file_name (Raise e) s = (except_handler e file_id file_name s, file_name, False)"
| "perform L file_id file_name (StartCleanup delay) s =
     (s\<lparr>cleanups := cleanups s @ [(file_id, delay)]\<rparr>, file_name, True)"

text \<open>
  A thread that runs with no other thread in between: the shared states after each of
  its steps, and the last of them.
\<close>

fun states :: "lib \<Rightarrow> string \<Rightarrow> string option \<Rightarrow> action list \<Rightarrow> 'a shared_scheme \<Rightarrow> 'a shared_scheme list" where
  "states L file_id file_name [] s = []"
| "states L file_id file_name (a # as) s =
     (case perform L file_id file_name a s of
        (s', file_name', go_on) \<Rightarrow>
          s' # (if go_on then states L file_id file_name' as s' else []))"

fun final :: "lib \<Rightarrow> string \<Rightarrow> string option \<Rightarrow> action list \<Rightarrow> 'a shared_scheme \<Rightarrow> 'a shared_scheme" where
  "final L file_id file_name [] s = s"
| "final L file_id file_name (a # as) s =
     (case perform L file_id file_name a s of
        (s', file_name', go_on) \<Rightarrow>
          if go_on then final L file_id file_name' as s' else s')"

text \<open>The values of \<^verbatim>\<open>progress\<close> a poller can read in a list of states; 0 stands for no entry.\<close>

definition progress_in :: "string \<Rightarrow> 'a shared_scheme \<Rightarrow> int" where
  "progress_in file_id s = (case active_downloads s file_id of None \<Rightarrow> 0 | Some e \<Rightarrow> progress e)"

subsection \<open>The process: requests, threads, cleanups\<close>

text \<open>A started thread: its arguments \<^verbatim>\<open>file_id\<close> and \<^verbatim>\<open>file_name\<close>, and the steps left.\<close>

record task =
  its_file_id :: string
  its_file_name :: "string option"
  todo :: "action list"

record system = shared +
  threads :: "task list"

text \<open>Lines 191 to 194: the body of \<^verbatim>\<open>cleanup\<close> once its sleep is over.\<close>

definition cleanup :: "string \<Rightarrow> registry \<Rightarrow> registry" where
  "cleanup file_id active = (if active file_id \<noteq> None then active(file_id := None) else active)"

text \<open>
  What can happen next in the process: a POST to \<^verbatim>\<open>/api/download\<close> (with the world the
  thread it may start will meet), the next step of a started thread, the end of the sleep
  of a \<^verbatim>\<open>cleanup\<close> thread.
\<close>

datatype event = Post "string + req_data" world | Run nat | Wake nat

fun apply_event :: "config \<Rightarrow> lib \<Rightarrow> system \<Rightarrow> event \<Rightarrow> system" where
  "apply_event cfg L s (Post body w) =
     (let out = download cfg (active_downloads s) body
      in s\<lparr>logs := logs s @ logged out,
           threads := threads s @
             (case spawn out of
                None \<Rightarrow> []
              | Some (fid, name, path) \<Rightarrow>
                  [\<lparr>its_file_id = fid, its_file_name = name,
                    todo = download_file_background cfg L w fid name path\<rparr>])\<rparr>)"
| "apply_event cfg L s (Run i) =
     (if i < length (threads s)
      then (let t = threads s ! i
            in case todo t of
                 [] \<Rightarrow> s
               | a # as \<Rightarrow>
                   (case perform L (its_file_id t) (its_file_name t) a s of
                      (s', name', go_on) \<Rightarrow>
                        s'\<lparr>threads := (threads s')[i := t\<lparr>its_file_name := name',
                                                          todo := (if go_on then as else [])\<rparr>]\<rparr>))
      else s)"
| "apply_event cfg L s (Wake j) =
     (if j < length (cleanups s)
      then s\<lparr>active_downloads := cleanup (fst (cleanups s ! j)) (active_downloads s),
             cleanups := take j (cleanups s) @ drop (Suc j) (cleanups s)\<rparr>
      else s)"

definition run_events :: "config \<Rightarrow> lib \<Rightarrow> event list \<Rightarrow> system \<Rightarrow> system" where
  "run_events cfg L es s = foldl (apply_event cfg L) s es"

definition start :: system where
  "start = \<lparr>active_downloads = Map.empty, cleanups = [], logs = [], threads = []\<rparr>"

section \<open>Observers\<close>

text \<open>
  Functions that read a list of steps, a world or a state. They are used to state the
  properties below; none of them is part of the program.
\<close>

subsection \<open>Of a list of steps\<close>

text \<open>
  The exception that sends the thread into its \<^verbatim>\<open>except\<close> clause, if an outside call
  raises one: the first \<open>Raise\<close> step.
\<close>

fun raised :: "action list \<Rightarrow> string option" where
  "raised [] = None"
| "raised (Raise e # as) = Some e"
| "raised (a # as) = raised as"

text \<open>The value of the local \<^verbatim>\<open>file_name\<close> when the steps end or raise.\<close>

fun name_after :: "string option \<Rightarrow> action list \<Rightarrow> string option" where
  "name_after file_name [] = file_name"
| "name_after file_name (Rebind name # as) = name_after (Some name) as"
| "name_after file_name (Raise e # as) = file_name"
| "name_after file_name (a # as) = name_after file_name as"

text \<open>
  The entry that the whole-entry and field assignments of the steps build, up to the
  first \<open>Raise\<close>.
\<close>

fun written :: "action list \<Rightarrow> entry \<Rightarrow> entry" where
  "written [] e = e"
| "written (Assign e' # as) e = written as e'"
| "written (Update f # as) e = written as (set_field f e)"
| "written (Raise x # as) e = e"
| "written (a # as) e = written as e"

text \<open>The sleeps of the \<^verbatim>\<open>cleanup\<close> threads the steps start, up to the first \<open>Raise\<close>.\<close>

fun scheduled :: "action list \<Rightarrow> nat list" where
  "scheduled [] = []"
| "scheduled (StartCleanup delay # as) = delay # scheduled as"
| "scheduled (Raise e # as) = []"
| "scheduled (a # as) = scheduled as"

text \<open>The log lines of the steps, up to the first \<open>Raise\<close>.\<close>

fun log_lines :: "action list \<Rightarrow> log_line list" where
  "log_lines [] = []"
| "log_lines (Log l m # as) = (l, m) # log_lines as"
| "log_lines (Raise e # as) = []"
| "log_lines (a # as) = log_lines as"

text \<open>
  The steps write \<^verbatim>\<open>progress\<close> values that start at or above \<open>p\<close>, never go down and stay
  at or below 100, up to the first \<open>Raise\<close>.
\<close>

fun rising :: "int \<Rightarrow> action list \<Rightarrow> bool" where
  "rising p [] = True"
| "rising p (Assign e # as) = (p \<le> progress e \<and> progress e \<le> 100 \<and> rising (progress e) as)"
| "rising p (Update (Progress q) # as) = (p \<le> q \<and> q \<le> 100 \<and> rising q as)"
| "rising p (Raise e # as) = True"
| "rising p (a # as) = rising p as"

text \<open>
  A step that leaves \<^verbatim>\<open>downloadedSize\<close> unset and writes no progress value other than
  0, 5, 10 and 100.
\<close>

fun untouched :: "action \<Rightarrow> bool" where
  "untouched (Assign e) = (downloadedSize e = None \<and> progress e \<in> {0, 5, 10, 100})"
| "untouched (Update (DownloadedSize n)) = False"
| "untouched (Update (Progress q)) = (q \<in> {0, 5, 10, 100})"
| "untouched a = True"

subsection \<open>Of a world\<close>

text \<open>The bytes of a list of chunks.\<close>

fun bytes_written :: "chunk list \<Rightarrow> nat" where
  "bytes_written [] = 0"
| "bytes_written (Chunk n w # chunks) = n + bytes_written chunks"

text \<open>
  The value of \<^verbatim>\<open>total_size\<close> in a world: the parsed header, else the \<^verbatim>\<open>fileSize\<close> of
  the download info, else 0.
\<close>

definition total_size_of :: "world \<Rightarrow> int" where
  "total_size_of w =
     (case session_get w of
        Inr response \<Rightarrow>
          (case content_length response of
             Some (Inr n) \<Rightarrow> n
           | _ \<Rightarrow> (case initiate_download w of
                    Inr info \<Rightarrow> (case info_fileSize info of None \<Rightarrow> 0 | Some n \<Rightarrow> n)
                  | Inl e \<Rightarrow> 0))
      | Inl e \<Rightarrow> 0)"

text \<open>The chunks the response of a world streams, and the exception that ends them.\<close>

definition chunks_of :: "world \<Rightarrow> chunk list" where
  "chunks_of w = (case session_get w of Inr response \<Rightarrow> iter_content response | Inl e \<Rightarrow> [])"

definition stream_end_of :: "world \<Rightarrow> string option" where
  "stream_end_of w = (case session_get w of Inr response \<Rightarrow> stream_error response | Inl e \<Rightarrow> None)"

text \<open>The bytes the response of a world streams.\<close>

definition received :: "world \<Rightarrow> nat" where
  "received w =
     (case session_get w of
        Inr response \<Rightarrow> bytes_written (iter_content response)
      | Inl e \<Rightarrow> 0)"

text \<open>
  The local \<^verbatim>\<open>file_name\<close> after line 122: the argument when it is truthy, else the
  \<^verbatim>\<open>fileName\<close> of the download info.
\<close>

definition local_name :: "world \<Rightarrow> string option \<Rightarrow> string" where
  "local_name w file_name =
     (if truthy file_name then the file_name
      else case initiate_download w of
             Inr info \<Rightarrow> (case info_fileName info of Some name \<Rightarrow> name | None \<Rightarrow> [])
           | Inl e \<Rightarrow> [])"

subsection \<open>Of a state\<close>

text \<open>The \<^verbatim>\<open>downloadedSize\<close> a poller can read in a state.\<close>

definition downloaded_in :: "string \<Rightarrow> 'a shared_scheme \<Rightarrow> nat option" where
  "downloaded_in file_id s =
     (case active_downloads s file_id of None \<Rightarrow> None | Some e \<Rightarrow> downloadedSize e)"

text \<open>
  Nothing of the process will touch the entry of \<open>fid\<close> by itself: every thread started
  for \<open>fid\<close> has ended and no \<^verbatim>\<open>cleanup\<close> thread for \<open>fid\<close> is asleep.
\<close>

definition idle :: "string \<Rightarrow> system \<Rightarrow> bool" where
  "idle fid s \<longleftrightarrow>
     (\<forall>t \<in> set (threads s). its_file_id t = fid \<longrightarrow> todo t = []) \<and>
     fid \<notin> set (map fst (cleanups s))"

section \<open>Concrete inputs\<close>

text \<open>A \<^verbatim>\<open>repr\<close> for strings without quotes or escapes, and a size formatter.\<close>

definition quoted :: "string \<Rightarrow> string" where
  "quoted s = [CHR 0x27] @ s @ [CHR 0x27]"

definition bytes_text :: "nat \<Rightarrow> string" where
  "bytes_text n = str_nat n @ '' B''"

definition example_lib :: lib where
  "example_lib = \<lparr>repr = quoted, format_file_size = bytes_text\<rparr>"

definition example_config :: config where
  "example_config =
     \<lparr>MOVIES_PATH = ''/downloads/movies'', SERIES_PATH = ''/downloads/series'',
      PLEX_TOKEN = ''token''\<rparr>"

text \<open>
  A world in which everything succeeds: 1000 bytes, announced by the content length,
  arrive in two chunks of 500.
\<close>

definition example_response :: http_response where
  "example_response =
     \<lparr>raise_for_status = None, content_length = Some (Inr 1000),
      iter_content = [Chunk 500 None, Chunk 500 None], stream_error = None\<rparr>"

definition example_world :: world where
  "example_world =
     \<lparr>time_time = 0,
      initiate_download =
        Inr \<lparr>info_downloadUrl = Some ''http://host/abc'', info_fileSize = None,
             info_fileName = Some ''abc.mkv''\<rparr>,
      os_makedirs = None, session_get = Inr example_response, open_file = None,
      os_chmod = None, requests_put = Inr 200\<rparr>"

definition example_request :: req_data where
  "example_request =
     \<lparr>req_fileId = Some ''abc'', req_fileName = Some ''abc.mkv'',
      req_contentType = Some ''series''\<rparr>"

text \<open>A world whose stream breaks after the first 500 of 1000 bytes.\<close>

definition broken_world :: world where
  "broken_world = example_world\<lparr>session_get :=
     Inr (example_response\<lparr>iter_content := [Chunk 500 None],
                            stream_error := Some ''Connection reset''\<rparr>)\<rparr>"

text \<open>The example without a content length and without an expected size.\<close>

definition unknown_size_world :: world where
  "unknown_size_world = example_world\<lparr>session_get :=
     Inr (example_response\<lparr>content_length := None\<rparr>)\<rparr>"

text \<open>A world in which the remote service refuses the download.\<close>

definition refusing_world :: world where
  "refusing_world = example_world\<lparr>initiate_download := Inl ''File not found''\<rparr>"

text \<open>The shared state of a process that has done nothing yet.\<close>

definition idle_shared :: shared where
  "idle_shared = \<lparr>active_downloads = Map.empty, cleanups = [], logs = []\<rparr>"

text \<open>The process after one request for \<^verbatim>\<open>abc\<close> whose thread has failed.\<close>

definition failed_once :: system where
  "failed_once =
     run_events example_config example_lib
       [Post (Inr example_request) refusing_world, Run 0, Run 0] start"

text \<open>
  Two requests for \<^verbatim>\<open>abc\<close> arrive before the thread of the first has made its first
  step, so both start a thread. The first thread then runs to its end, which takes its
  16 steps.
\<close>

definition first_thread_done :: "world \<Rightarrow> event list" where
  "first_thread_done second =
     [Post (Inr example_request) unknown_size_world, Post (Inr example_request) second,
      Run 0, Run 0, Run 0, Run 0, Run 0, Run 0, Run 0, Run 0,
      Run 0, Run 0, Run 0, Run 0, Run 0, Run 0, Run 0, Run 0]"

text \<open>
  The process at that point when the world of the second thread refuses the download,
  then after the first step of the second thread, then after its second and last step.
\<close>

definition after_first :: system where
  "after_first = run_events example_config example_lib (first_thread_done refusing_world) start"

definition second_started :: system where
  "second_started = apply_event example_config example_lib after_first (Run 1)"

definition second_failed :: system where
  "second_failed = apply_event example_config example_lib second_started (Run 1)"

section \<open>Properties\<close>

subsection \<open>The route\<close>

lemma download_rejects:
  "\<not> truthy (req_fileId d) \<Longrightarrow> download cfg active (Inr d) = \<lparr>reply = Reply400 ''File ID is required'', spawn = None, logged = []\<rparr>"
  by (simp add: download_def)

lemma download_present:
  "truthy (req_fileId d) \<Longrightarrow> active (the (req_fileId d)) = Some e \<Longrightarrow>
   reply (download cfg active (Inr d)) = ReplyInProgress (''Download already in progress: '' @ str_opt (req_fileName d)) (status e) (progress e)
   \<and> spawn (download cfg active (Inr d)) = None"
  by (simp add: download_def Let_def)

lemma download_absent:
  "truthy (req_fileId d) \<Longrightarrow> active (the (req_fileId d)) = None \<Longrightarrow>
   reply (download cfg active (Inr d)) = ReplyStarted (''Download started: '' @ str_opt (req_fileName d)) (the (req_fileId d))
   \<and> spawn (download cfg active (Inr d)) =
       Some (the (req_fileId d), req_fileName d,
             if req_contentType d = Some ''series'' then SERIES_PATH cfg else MOVIES_PATH cfg)"
  by (auto simp add: download_def Let_def split: option.splits)

lemma post_keeps_registry:
  "active_downloads (apply_event cfg L s (Post body w)) = active_downloads s"
  by (simp add: Let_def)

text \<open>
  Claim C10. A request with a file id selects \<^verbatim>\<open>SERIES_PATH\<close> when its content type is
  the string \<^verbatim>\<open>series\<close> and \<^verbatim>\<open>MOVIES_PATH\<close> for every other value and for a missing
  field: that path is logged, and it is the path handed to the thread when one is started.
\<close>

theorem destination_by_content_type:
  assumes "truthy (req_fileId d)"
  shows "let path = (if req_contentType d = Some ''series'' then SERIES_PATH cfg else MOVIES_PATH cfg);
             out = download cfg active (Inr d)
         in logged out = [(INFO, ''Downloading '' @ str_opt (req_fileName d) @ '' as '' @
                                 (case req_contentType d of None \<Rightarrow> ''movie'' | Some c \<Rightarrow> c) @ '' to '' @ path)]
            \<and> spawn out = (case active (the (req_fileId d)) of
                             None \<Rightarrow> Some (the (req_fileId d), req_fileName d, path)
                           | Some e \<Rightarrow> None)"
  using assms by (auto simp add: download_def Let_def split: option.splits)

theorem destination_by_content_type_witness:
  "truthy (req_fileId example_request) \<and>
   spawn (download example_config Map.empty (Inr example_request)) = Some (''abc'', Some ''abc.mkv'', ''/downloads/series'') \<and>
   spawn (download example_config Map.empty (Inr (example_request\<lparr>req_contentType := Some ''Series''\<rparr>))) = Some (''abc'', Some ''abc.mkv'', ''/downloads/movies'') \<and>
   spawn (download example_config Map.empty (Inr (example_request\<lparr>req_contentType := None\<rparr>))) = Some (''abc'', Some ''abc.mkv'', ''/downloads/movies'')"
proof -
  have t: "truthy (req_fileId example_request)"
    by (simp add: truthy_def example_request_def)
  have t1: "truthy (req_fileId (example_request\<lparr>req_contentType := Some ''Series''\<rparr>))"
    by (simp add: truthy_def example_request_def)
  have t2: "truthy (req_fileId (example_request\<lparr>req_contentType := None\<rparr>))"
    by (simp add: truthy_def example_request_def)
  show ?thesis
    using t destination_by_content_type [OF t, of example_config Map.empty]
      destination_by_content_type [OF t1, of example_config Map.empty]
      destination_by_content_type [OF t2, of example_config Map.empty]
    by (simp add: Let_def example_request_def example_config_def)
qed




subsection \<open>Running a list of steps\<close>

lemma raised_append: "raised (xs @ ys) = (case raised xs of None \<Rightarrow> raised ys | Some e \<Rightarrow> Some e)"
  by (induction xs rule: raised.induct) simp_all

lemma written_append: "raised xs = None \<Longrightarrow> written (xs @ ys) e = written ys (written xs e)"
  by (induction xs e rule: written.induct) simp_all

lemma name_after_append:
  "raised xs = None \<Longrightarrow> name_after n (xs @ ys) = name_after (name_after n xs) ys"
  by (induction n xs rule: name_after.induct) simp_all

lemma scheduled_append:
  "raised xs = None \<Longrightarrow> scheduled (xs @ ys) = scheduled xs @ scheduled ys"
  by (induction xs rule: scheduled.induct) simp_all

lemma final_entry:
  "active_downloads s fid = Some e \<Longrightarrow> raised as = None \<Longrightarrow>
   active_downloads (final L fid fn as s) x =
     (if x = fid then Some (written as e) else active_downloads s x)"
proof (induction as arbitrary: s fn e)
  case Nil
  then show ?case by simp
next
  case (Cons a as)
  then show ?case by (cases a) simp_all
qed

lemma final_failed:
  "active_downloads s fid = Some e0 \<Longrightarrow> raised as = Some e \<Longrightarrow>
   active_downloads (final L fid fn as s) x =
     active_downloads (except_handler e fid (name_after fn as) s) x"
proof (induction as arbitrary: s fn e0)
  case Nil
  then show ?case by simp
next
  case (Cons a as)
  then show ?case by (cases a) (simp_all add: except_handler_def)
qed

lemma final_cleanups:
  "active_downloads s fid = Some e0 \<Longrightarrow>
   cleanups (final L fid fn as s) = cleanups s @ map (Pair fid) (scheduled as)"
proof (induction as arbitrary: s fn e0)
  case Nil
  then show ?case by simp
next
  case (Cons a as)
  then show ?case by (cases a) (simp_all add: except_handler_def)
qed

lemma write_chunks_raised: "raised (fst (write_chunks t d cs en)) = None"
  by (induction t d cs en rule: write_chunks.induct)
     (simp_all add: Let_def raised_append split: option.splits)

lemma write_chunks_bytes:
  "snd (write_chunks t d cs en) = Inr d' \<Longrightarrow> d' = d + bytes_written cs"
  by (induction t d cs en rule: write_chunks.induct)
     (auto simp add: Let_def split: option.splits if_splits)

lemma write_chunks_written:
  "snd (write_chunks t d cs en) = Inr d' \<Longrightarrow>
   written (fst (write_chunks t d cs en)) e =
     (if 0 < t \<and> d < d'
      then e\<lparr>progress := min 90 (10 + (int d' * 80) div t),
             message := ''Downloading... '' @ str_int (min 90 (10 + (int d' * 80) div t) - 10) @ ''%'',
             downloadedSize := Some d'\<rparr>
      else e)"
proof (induction t d cs en arbitrary: e rule: write_chunks.induct)
  case (1 total_size downloaded_size "end")
  then show ?case by (auto split: option.splits)
next
  case (2 total_size downloaded_size n w chunks "end")
  show ?case
  proof (cases "n = 0")
    case True
    with 2 show ?thesis by simp
  next
    case False
    with "2.prems" obtain wn: "w = None" by (cases w) auto
    from False wn "2.prems"
    have s: "snd (write_chunks total_size (downloaded_size + n) chunks end) = Inr d'"
      by (simp add: Let_def)
    have le: "downloaded_size + n \<le> d'"
      using write_chunks_bytes [OF s] by simp
    show ?thesis
      using False wn le "2.IH"(2) [OF False wn refl refl refl s]
      by (auto simp add: Let_def written_append)
  qed
qed

lemma after_stream_raised: "raised (after_stream cfg L w n p d) = None"
  by (simp add: after_stream_def split: option.splits sum.splits)

lemma after_stream_written:
  "written (after_stream cfg L w n p d) e =
     e\<lparr>status := ''completed'', progress := 100, message := ''Download completed!'',
       filePath := Some p, finalSize := Some d\<rparr>"
  by (simp add: after_stream_def split: option.splits sum.splits)

lemma after_stream_scheduled: "scheduled (after_stream cfg L w n p d) = [30]"
  by (simp add: after_stream_def split: option.splits sum.splits)

lemma transfer_cases:
  assumes "raised (transfer cfg L w ex name path) = None"
  obtains r total where
    "os_makedirs w = None" "session_get w = Inr r" "raise_for_status r = None"
    "(case content_length r of None \<Rightarrow> Inr ex | Some parsed \<Rightarrow> parsed) = Inr total"
    "open_file w = None"
    "snd (write_chunks total 0 (iter_content r) (stream_error r)) = Inr (bytes_written (iter_content r))"
    "transfer cfg L w ex name path =
       [Update (Message ''Connecting to server...''), Update (Progress 5),
        Log INFO (''Starting download of '' @ name @ ''...''),
        Update (Message ''Downloading... 0%''), Update (Progress 10), Update (TotalSize total)] @
       fst (write_chunks total 0 (iter_content r) (stream_error r)) @
       after_stream cfg L w name (os_path_join path name) (bytes_written (iter_content r))"
proof -
  have mk: "os_makedirs w = None"
    using assms by (cases "os_makedirs w") (simp_all add: transfer_def)
  obtain r where sg: "session_get w = Inr r"
    using assms mk by (cases "session_get w") (simp_all add: transfer_def)
  have rs: "raise_for_status r = None"
    using assms mk sg by (cases "raise_for_status r") (simp_all add: transfer_def)
  obtain total where cl: "(case content_length r of None \<Rightarrow> Inr ex | Some parsed \<Rightarrow> parsed) = Inr total"
    using assms mk sg rs
    by (cases "case content_length r of None \<Rightarrow> Inr ex | Some parsed \<Rightarrow> parsed")
       (simp_all add: transfer_def)
  have op: "open_file w = None"
    using assms mk sg rs cl by (cases "open_file w") (simp_all add: transfer_def)
  obtain d where wc: "snd (write_chunks total 0 (iter_content r) (stream_error r)) = Inr d"
    using assms mk sg rs cl op
    by (cases "snd (write_chunks total 0 (iter_content r) (stream_error r))")
       (simp_all add: transfer_def case_prod_beta raised_append write_chunks_raised)
  have d: "d = bytes_written (iter_content r)"
    using write_chunks_bytes [OF wc] by simp
  have eq: "transfer cfg L w ex name path =
       [Update (Message ''Connecting to server...''), Update (Progress 5),
        Log INFO (''Starting download of '' @ name @ ''...''),
        Update (Message ''Downloading... 0%''), Update (Progress 10), Update (TotalSize total)] @
       fst (write_chunks total 0 (iter_content r) (stream_error r)) @
       after_stream cfg L w name (os_path_join path name) (bytes_written (iter_content r))"
    using mk sg rs cl op wc d by (simp add: transfer_def case_prod_beta)
  show thesis
    using that [OF mk sg rs cl op _ eq] wc d by simp
qed

lemma background_cases:
  assumes "raised (download_file_background cfg L w fid fn path) = None"
  obtains info url where
    "initiate_download w = Inr info" "info_downloadUrl info = Some url"
    "truthy fn \<or> info_fileName info = Some (local_name w fn)"
    "raised (transfer cfg L w (case info_fileSize info of None \<Rightarrow> 0 | Some n \<Rightarrow> n)
               (local_name w fn) path) = None"
    "tl (download_file_background cfg L w fid fn path) =
       (if truthy fn then [] else [Rebind (local_name w fn)]) @
       transfer cfg L w (case info_fileSize info of None \<Rightarrow> 0 | Some n \<Rightarrow> n) (local_name w fn) path"
proof -
  obtain info where i: "initiate_download w = Inr info"
    using assms by (cases "initiate_download w") (simp_all add: download_file_background_def)
  obtain url where u: "info_downloadUrl info = Some url"
    using assms i by (cases "info_downloadUrl info") (simp_all add: download_file_background_def)
  show thesis
  proof (cases "truthy fn")
    case True
    show ?thesis
      using assms i u True that [OF i u]
      by (simp add: download_file_background_def local_name_def)
  next
    case False
    obtain n where n: "info_fileName info = Some n"
      using assms i u False
      by (cases "info_fileName info") (simp_all add: download_file_background_def)
    show ?thesis
      using assms i u False n that [OF i u]
      by (simp add: download_file_background_def local_name_def)
  qed
qed

lemma completed_entry:
  assumes "raised (download_file_background cfg L w fid fn path) = None"
  shows "written (download_file_background cfg L w fid fn path) e0 =
           \<lparr>status = ''completed'', fileName = fn, progress = 100,
            message = ''Download completed!'', startTime = Some (time_time w),
            totalSize = Some (total_size_of w),
            downloadedSize = (if 0 < total_size_of w \<and> 0 < received w then Some (received w) else None),
            filePath = Some (os_path_join path (local_name w fn)),
            finalSize = Some (received w), error = None\<rparr>"
proof -
  let ?gen = "download_file_background cfg L w fid fn path"
  obtain info url where
    i: "initiate_download w = Inr info" and
    tr: "raised (transfer cfg L w (case info_fileSize info of None \<Rightarrow> 0 | Some n \<Rightarrow> n)
               (local_name w fn) path) = None" and
    tl: "tl ?gen = (if truthy fn then [] else [Rebind (local_name w fn)]) @
       transfer cfg L w (case info_fileSize info of None \<Rightarrow> 0 | Some n \<Rightarrow> n) (local_name w fn) path"
    using background_cases [OF assms] by metis
  let ?ex = "case info_fileSize info of None \<Rightarrow> 0 | Some n \<Rightarrow> n"
  obtain r total where
    sg: "session_get w = Inr r" and
    cl: "(case content_length r of None \<Rightarrow> Inr ?ex | Some parsed \<Rightarrow> parsed) = Inr total" and
    wc: "snd (write_chunks total 0 (iter_content r) (stream_error r)) = Inr (bytes_written (iter_content r))" and
    eq: "transfer cfg L w ?ex (local_name w fn) path =
       [Update (Message ''Connecting to server...''), Update (Progress 5),
        Log INFO (''Starting download of '' @ local_name w fn @ ''...''),
        Update (Message ''Downloading... 0%''), Update (Progress 10), Update (TotalSize total)] @
       fst (write_chunks total 0 (iter_content r) (stream_error r)) @
       after_stream cfg L w (local_name w fn) (os_path_join path (local_name w fn)) (bytes_written (iter_content r))"
    using transfer_cases [OF tr] by metis
  have total: "total_size_of w = total"
    using sg cl i by (auto simp add: total_size_of_def split: option.splits sum.splits)
  have rec: "received w = bytes_written (iter_content r)"
    using sg by (simp add: received_def)
  have gen: "?gen = hd ?gen # tl ?gen"
    by (simp add: download_file_background_def)
  have hd: "hd ?gen = Assign \<lparr>status = ''downloading'', fileName = fn, progress = 0,
             message = ''Starting download...'', startTime = Some (time_time w),
             totalSize = None, downloadedSize = None, filePath = None, finalSize = None,
             error = None\<rparr>"
    by (simp add: download_file_background_def)
  show ?thesis
    apply (subst gen)
    apply (simp only: hd tl eq)
    apply (simp add: written_append write_chunks_raised write_chunks_written [OF wc]
        after_stream_written total rec)
    done
qed

lemma background_Cons:
  "download_file_background cfg L w fid fn path =
     Assign \<lparr>status = ''downloading'', fileName = fn, progress = 0,
             message = ''Starting download...'', startTime = Some (time_time w),
             totalSize = None, downloadedSize = None, filePath = None, finalSize = None,
             error = None\<rparr> # tl (download_file_background cfg L w fid fn path)"
  by (simp add: download_file_background_def)

lemma final_background_ok:
  assumes "raised (download_file_background cfg L w fid fn path) = None"
  shows "active_downloads (final L fid fn (download_file_background cfg L w fid fn path) s) x =
           (if x = fid then Some (written (download_file_background cfg L w fid fn path) e)
            else active_downloads s x)"
proof -
  let ?gen = "download_file_background cfg L w fid fn path"
  obtain e0 where g: "?gen = Assign e0 # tl ?gen"
    using background_Cons by blast
  have r: "raised (tl ?gen) = None"
    using assms by (subst (asm) g) simp
  have "active_downloads (final L fid fn (Assign e0 # tl ?gen) s) x =
          (if x = fid then Some (written (Assign e0 # tl ?gen) e) else active_downloads s x)"
    using final_entry [of "s\<lparr>active_downloads := (active_downloads s)(fid \<mapsto> e0)\<rparr>" fid e0 "tl ?gen" L fn x] r
    by simp
  then show ?thesis
    using g by simp
qed

lemma final_background_failed:
  assumes "raised (download_file_background cfg L w fid fn path) = Some e"
  shows "active_downloads (final L fid fn (download_file_background cfg L w fid fn path) s) x =
           (if x = fid
            then Some \<lparr>status = ''error'',
                       fileName = name_after fn (download_file_background cfg L w fid fn path),
                       progress = 0, message = ''Download failed: '' @ e, startTime = None,
                       totalSize = None, downloadedSize = None, filePath = None,
                       finalSize = None, error = Some e\<rparr>
            else active_downloads s x)"
proof -
  let ?gen = "download_file_background cfg L w fid fn path"
  obtain e0 where g: "?gen = Assign e0 # tl ?gen"
    using background_Cons by blast
  have r: "raised (tl ?gen) = Some e"
    using assms by (subst (asm) g) simp
  have n: "name_after fn ?gen = name_after fn (tl ?gen)"
    by (subst g) simp
  have "active_downloads (final L fid fn (Assign e0 # tl ?gen) s) x =
          (if x = fid
            then Some \<lparr>status = ''error'', fileName = name_after fn (tl ?gen),
                       progress = 0, message = ''Download failed: '' @ e, startTime = None,
                       totalSize = None, downloadedSize = None, filePath = None,
                       finalSize = None, error = Some e\<rparr>
            else active_downloads s x)"
    using final_failed [of "s\<lparr>active_downloads := (active_downloads s)(fid \<mapsto> e0)\<rparr>" fid e0 "tl ?gen" e L fn x] r
    by (simp add: except_handler_def)
  then show ?thesis
    using g n by simp
qed

lemma final_background_cleanups:
  "cleanups (final L fid fn (download_file_background cfg L w fid fn path) s) =
     cleanups s @ map (Pair fid) (scheduled (download_file_background cfg L w fid fn path))"
proof -
  let ?gen = "download_file_background cfg L w fid fn path"
  obtain e0 where g: "?gen = Assign e0 # tl ?gen"
    using background_Cons by blast
  have "cleanups (final L fid fn (Assign e0 # tl ?gen) s) =
          cleanups s @ map (Pair fid) (scheduled (Assign e0 # tl ?gen))"
    using final_cleanups [of "s\<lparr>active_downloads := (active_downloads s)(fid \<mapsto> e0)\<rparr>" fid e0 L fn "tl ?gen"]
    by simp
  then show ?thesis
    using g by simp
qed

lemma write_chunks_scheduled: "scheduled (fst (write_chunks t d cs en)) = []"
  by (induction t d cs en rule: write_chunks.induct)
     (simp_all add: Let_def scheduled_append split: option.splits)

lemma scheduled_transfer:
  "scheduled (transfer cfg L w ex name path) =
     (case raised (transfer cfg L w ex name path) of None \<Rightarrow> [30] | Some e \<Rightarrow> [])"
  by (simp add: transfer_def Let_def case_prod_beta raised_append scheduled_append
        write_chunks_raised write_chunks_scheduled after_stream_raised after_stream_scheduled
      split: sum.splits option.splits)

lemma scheduled_background:
  "scheduled (download_file_background cfg L w fid fn path) =
     (case raised (download_file_background cfg L w fid fn path) of None \<Rightarrow> [30] | Some e \<Rightarrow> [])"
  by (simp add: download_file_background_def Let_def scheduled_transfer
      split: sum.splits option.splits)

lemma raised_transfer_put:
  "raised (transfer cfg L (w\<lparr>requests_put := r\<rparr>) ex name path) = raised (transfer cfg L w ex name path)"
  by (simp add: transfer_def Let_def case_prod_beta raised_append
        write_chunks_raised after_stream_raised
      split: sum.splits option.splits)

lemma raised_background_put:
  "raised (download_file_background cfg L (w\<lparr>requests_put := r\<rparr>) fid fn path) =
   raised (download_file_background cfg L w fid fn path)"
  by (simp add: download_file_background_def Let_def raised_transfer_put
      split: sum.splits option.splits)

subsection \<open>A thread that fails\<close>

text \<open>
  Claim C2, as the code has it. When an outside call of the thread raises \<open>e\<close>, the
  \<^verbatim>\<open>except\<close> clause replaces the entry: status \<^verbatim>\<open>error\<close>, the \<^verbatim>\<open>error\<close> field and the
  message carry \<open>e\<close>, and \<^verbatim>\<open>progress\<close> is set to 0; the keys of the old entry are gone.
\<close>

theorem failure_entry:
  assumes "raised (download_file_background cfg L w fid fn path) = Some e"
  shows "active_downloads (final L fid fn (download_file_background cfg L w fid fn path) s) fid =
           Some \<lparr>status = ''error'',
                  fileName = name_after fn (download_file_background cfg L w fid fn path),
                  progress = 0, message = ''Download failed: '' @ e, startTime = None,
                  totalSize = None, downloadedSize = None, filePath = None,
                  finalSize = None, error = Some e\<rparr>"
  using final_background_failed [OF assms, of s fid] by simp

lemma broken_steps:
  "download_file_background example_config example_lib broken_world ''abc'' (Some ''abc.mkv'') ''/downloads/movies'' =
     [Assign \<lparr>status = ''downloading'', fileName = Some ''abc.mkv'', progress = 0,
              message = ''Starting download...'', startTime = Some 0,
              totalSize = None, downloadedSize = None, filePath = None, finalSize = None,
              error = None\<rparr>,
      Update (Message ''Connecting to server...''), Update (Progress 5),
      Log INFO ''Starting download of abc.mkv...'',
      Update (Message ''Downloading... 0%''), Update (Progress 10), Update (TotalSize 1000),
      Update (Progress 50), Update (Message ''Downloading... 40%''), Update (DownloadedSize 500),
      Raise ''Connection reset'']"
  by (simp add: download_file_background_def transfer_def broken_world_def example_world_def
        example_response_def truthy_def Let_def str_int_def str_nat.simps)

theorem failure_entry_witness:
  "raised (download_file_background example_config example_lib broken_world ''abc'' (Some ''abc.mkv'') ''/downloads/movies'') = Some ''Connection reset'' \<and>
   active_downloads (final example_lib ''abc'' (Some ''abc.mkv'')
      (download_file_background example_config example_lib broken_world ''abc'' (Some ''abc.mkv'') ''/downloads/movies'') idle_shared) ''abc'' =
     Some \<lparr>status = ''error'', fileName = Some ''abc.mkv'',
            progress = 0, message = ''Download failed: Connection reset'', startTime = None,
            totalSize = None, downloadedSize = None, filePath = None,
            finalSize = None, error = Some ''Connection reset''\<rparr>"
proof -
  have r: "raised (download_file_background example_config example_lib broken_world ''abc'' (Some ''abc.mkv'') ''/downloads/movies'') = Some ''Connection reset''"
    by (simp add: broken_steps)
  show ?thesis
    using r failure_entry [OF r, of idle_shared] by (simp add: broken_steps)
qed

text \<open>
  Claim C2 as stated fails: the stream breaks when the entry shows progress 50, and the
  failed entry shows progress 0.
\<close>

theorem failure_loses_progress:
  "progress_in ''abc'' (final example_lib ''abc'' (Some ''abc.mkv'')
      (butlast (download_file_background example_config example_lib broken_world ''abc'' (Some ''abc.mkv'') ''/downloads/movies'')) idle_shared) = 50 \<and>
   progress_in ''abc'' (final example_lib ''abc'' (Some ''abc.mkv'')
      (download_file_background example_config example_lib broken_world ''abc'' (Some ''abc.mkv'') ''/downloads/movies'') idle_shared) = 0"
  by (simp add: broken_steps progress_in_def idle_shared_def except_handler_def)

subsection \<open>A thread that completes\<close>

lemma log_lines_append:
  "raised xs = None \<Longrightarrow> log_lines (xs @ ys) = log_lines xs @ log_lines ys"
  by (induction xs rule: log_lines.induct) simp_all

lemma final_logs:
  "active_downloads s fid = Some e0 \<Longrightarrow> raised as = None \<Longrightarrow>
   logs (final L fid fn as s) = logs s @ log_lines as"
proof (induction as arbitrary: s fn e0)
  case Nil
  then show ?case by simp
next
  case (Cons a as)
  then show ?case by (cases a) simp_all
qed

lemma final_background_logs:
  assumes "raised (download_file_background cfg L w fid fn path) = None"
  shows "logs (final L fid fn (download_file_background cfg L w fid fn path) s) =
           logs s @ log_lines (download_file_background cfg L w fid fn path)"
proof -
  let ?gen = "download_file_background cfg L w fid fn path"
  obtain e0 where g: "?gen = Assign e0 # tl ?gen"
    using background_Cons by blast
  have r: "raised (tl ?gen) = None"
    using assms by (subst (asm) g) simp
  have "logs (final L fid fn (Assign e0 # tl ?gen) s) = logs s @ log_lines (Assign e0 # tl ?gen)"
    using final_logs [of "s\<lparr>active_downloads := (active_downloads s)(fid \<mapsto> e0)\<rparr>" fid e0 "tl ?gen" L fn] r
    by simp
  then show ?thesis
    using g by simp
qed

lemma after_stream_logs_failure:
  "PLEX_TOKEN cfg \<noteq> [] \<Longrightarrow> requests_put w = Inl err \<Longrightarrow>
   (ERROR, ''Error triggering Plex library refresh: '' @ err) \<in> set (log_lines (after_stream cfg L w n p d))"
  by (cases "os_chmod w") (simp_all add: after_stream_def)

lemma background_unfold:
  assumes "raised (download_file_background cfg L w fid fn path) = None"
  shows "download_file_background cfg L w fid fn path =
           Assign \<lparr>status = ''downloading'', fileName = fn, progress = 0,
             message = ''Starting download...'', startTime = Some (time_time w),
             totalSize = None, downloadedSize = None, filePath = None, finalSize = None,
             error = None\<rparr> #
           (if truthy fn then [] else [Rebind (local_name w fn)]) @
           [Update (Message ''Connecting to server...''), Update (Progress 5),
            Log INFO (''Starting download of '' @ local_name w fn @ ''...''),
            Update (Message ''Downloading... 0%''), Update (Progress 10),
            Update (TotalSize (total_size_of w))] @
           fst (write_chunks (total_size_of w) 0 (chunks_of w) (stream_end_of w)) @
           after_stream cfg L w (local_name w fn) (os_path_join path (local_name w fn)) (received w)"
    and "snd (write_chunks (total_size_of w) 0 (chunks_of w) (stream_end_of w)) = Inr (received w)"
proof -
  let ?gen = "download_file_background cfg L w fid fn path"
  obtain info url where
    i: "initiate_download w = Inr info" and
    tr: "raised (transfer cfg L w (case info_fileSize info of None \<Rightarrow> 0 | Some n \<Rightarrow> n)
               (local_name w fn) path) = None" and
    tl: "tl ?gen = (if truthy fn then [] else [Rebind (local_name w fn)]) @
       transfer cfg L w (case info_fileSize info of None \<Rightarrow> 0 | Some n \<Rightarrow> n) (local_name w fn) path"
    using background_cases [OF assms] by metis
  let ?ex = "case info_fileSize info of None \<Rightarrow> 0 | Some n \<Rightarrow> n"
  obtain r total where
    sg: "session_get w = Inr r" and
    cl: "(case content_length r of None \<Rightarrow> Inr ?ex | Some parsed \<Rightarrow> parsed) = Inr total" and
    wc: "snd (write_chunks total 0 (iter_content r) (stream_error r)) = Inr (bytes_written (iter_content r))" and
    eq: "transfer cfg L w ?ex (local_name w fn) path =
       [Update (Message ''Connecting to server...''), Update (Progress 5),
        Log INFO (''Starting download of '' @ local_name w fn @ ''...''),
        Update (Message ''Downloading... 0%''), Update (Progress 10), Update (TotalSize total)] @
       fst (write_chunks total 0 (iter_content r) (stream_error r)) @
       after_stream cfg L w (local_name w fn) (os_path_join path (local_name w fn)) (bytes_written (iter_content r))"
    using transfer_cases [OF tr] by metis
  have total: "total_size_of w = total"
    using sg cl i by (auto simp add: total_size_of_def split: option.splits sum.splits)
  have rec: "received w = bytes_written (iter_content r)"
    using sg by (simp add: received_def)
  have ch: "chunks_of w = iter_content r" "stream_end_of w = stream_error r"
    using sg by (simp_all add: chunks_of_def stream_end_of_def)
  have gen: "?gen = hd ?gen # tl ?gen"
    by (simp add: download_file_background_def)
  have hd: "hd ?gen = Assign \<lparr>status = ''downloading'', fileName = fn, progress = 0,
             message = ''Starting download...'', startTime = Some (time_time w),
             totalSize = None, downloadedSize = None, filePath = None, finalSize = None,
             error = None\<rparr>"
    by (simp add: download_file_background_def)
  show "?gen = Assign \<lparr>status = ''downloading'', fileName = fn, progress = 0,
             message = ''Starting download...'', startTime = Some (time_time w),
             totalSize = None, downloadedSize = None, filePath = None, finalSize = None,
             error = None\<rparr> #
           (if truthy fn then [] else [Rebind (local_name w fn)]) @
           [Update (Message ''Connecting to server...''), Update (Progress 5),
            Log INFO (''Starting download of '' @ local_name w fn @ ''...''),
            Update (Message ''Downloading... 0%''), Update (Progress 10),
            Update (TotalSize (total_size_of w))] @
           fst (write_chunks (total_size_of w) 0 (chunks_of w) (stream_end_of w)) @
           after_stream cfg L w (local_name w fn) (os_path_join path (local_name w fn)) (received w)"
    apply (subst gen)
    apply (simp only: hd tl eq total rec ch)
    done
  show "snd (write_chunks (total_size_of w) 0 (chunks_of w) (stream_end_of w)) = Inr (received w)"
    using wc by (simp only: total rec ch)
qed

lemma background_logs_failure:
  assumes "raised (download_file_background cfg L w fid fn path) = None"
    and "PLEX_TOKEN cfg \<noteq> []" and "requests_put w = Inl err"
  shows "(ERROR, ''Error triggering Plex library refresh: '' @ err)
           \<in> set (log_lines (download_file_background cfg L w fid fn path))"
  apply (subst background_unfold(1) [OF assms(1)])
  apply (insert after_stream_logs_failure [OF assms(2) assms(3), of L "local_name w fn"
        "os_path_join path (local_name w fn)" "received w"])
  apply (simp add: log_lines_append write_chunks_raised)
  done

lemma observers_put:
  "total_size_of (w\<lparr>requests_put := r\<rparr>) = total_size_of w"
  "received (w\<lparr>requests_put := r\<rparr>) = received w"
  "local_name (w\<lparr>requests_put := r\<rparr>) fn = local_name w fn"
  by (simp_all add: total_size_of_def received_def local_name_def
      split: sum.splits option.splits)

lemma example_steps:
  "download_file_background example_config example_lib example_world ''abc'' None ''/downloads/movies'' =
     [Assign \<lparr>status = ''downloading'', fileName = None, progress = 0,
              message = ''Starting download...'', startTime = Some 0,
              totalSize = None, downloadedSize = None, filePath = None, finalSize = None,
              error = None\<rparr>,
      Rebind ''abc.mkv'',
      Update (Message ''Connecting to server...''), Update (Progress 5),
      Log INFO ''Starting download of abc.mkv...'',
      Update (Message ''Downloading... 0%''), Update (Progress 10), Update (TotalSize 1000),
      Update (Progress 50), Update (Message ''Downloading... 40%''), Update (DownloadedSize 500),
      Update (Progress 90), Update (Message ''Downloading... 80%''), Update (DownloadedSize 1000),
      Log INFO ''Set file permissions to 644 for abc.mkv'',
      Update (Status ''completed''), Update (Progress 100),
      Update (Message ''Download completed!''),
      Update (FilePath ''/downloads/movies/abc.mkv''), Update (FinalSize 1000),
      Log INFO ''Download completed: abc.mkv (1000 B)'',
      Log INFO ''Successfully triggered Plex library refresh'',
      StartCleanup 30]"
  by (simp add: download_file_background_def transfer_def after_stream_def example_world_def
        example_response_def example_config_def example_lib_def bytes_text_def
        truthy_def Let_def str_int_def str_nat.simps os_path_join_def)

lemma final_completed:
  assumes "raised (download_file_background cfg L w fid fn path) = None"
  shows "active_downloads (final L fid fn (download_file_background cfg L w fid fn path) s) x =
           (if x = fid
            then Some \<lparr>status = ''completed'', fileName = fn, progress = 100,
                  message = ''Download completed!'', startTime = Some (time_time w),
                  totalSize = Some (total_size_of w),
                  downloadedSize = (if 0 < total_size_of w \<and> 0 < received w
                                    then Some (received w) else None),
                  filePath = Some (os_path_join path (local_name w fn)),
                  finalSize = Some (received w), error = None\<rparr>
            else active_downloads s x)"
  apply (subst final_background_ok [OF assms])
  apply (simp add: completed_entry [OF assms])
  done

text \<open>
  Claim C7. When no outside call of the thread raises, the thread leaves the entry with
  status \<^verbatim>\<open>completed\<close>, progress 100, the message "Download completed!", the file path
  and the final size, which is the number of bytes streamed.
\<close>

theorem completed_task:
  assumes "raised (download_file_background cfg L w fid fn path) = None"
  shows "active_downloads (final L fid fn (download_file_background cfg L w fid fn path) s) fid =
           Some \<lparr>status = ''completed'', fileName = fn, progress = 100,
                  message = ''Download completed!'', startTime = Some (time_time w),
                  totalSize = Some (total_size_of w),
                  downloadedSize = (if 0 < total_size_of w \<and> 0 < received w
                                    then Some (received w) else None),
                  filePath = Some (os_path_join path (local_name w fn)),
                  finalSize = Some (received w), error = None\<rparr>"
  using final_completed [OF assms, of s fid] by simp

theorem completed_task_witness:
  "raised (download_file_background example_config example_lib example_world ''abc'' None ''/downloads/movies'') = None \<and>
   active_downloads (final example_lib ''abc'' None
      (download_file_background example_config example_lib example_world ''abc'' None ''/downloads/movies'') idle_shared) ''abc'' =
     Some \<lparr>status = ''completed'', fileName = None, progress = 100,
            message = ''Download completed!'', startTime = Some 0,
            totalSize = Some 1000, downloadedSize = Some 1000,
            filePath = Some ''/downloads/movies/abc.mkv'',
            finalSize = Some 1000, error = None\<rparr>"
proof -
  have r: "raised (download_file_background example_config example_lib example_world ''abc'' None ''/downloads/movies'') = None"
    by (simp add: example_steps)
  show ?thesis
    using r completed_task [OF r, of idle_shared]
    by (simp add: total_size_of_def received_def local_name_def example_world_def
          example_response_def truthy_def os_path_join_def)
qed

text \<open>
  Claim C8. Take a thread that completes. Whatever the refresh call of the media
  library does, also when it raises \<open>err\<close>, the thread raises nothing, leaves the registry
  as it does when the call succeeds, with status \<^verbatim>\<open>completed\<close>, progress 100 and no
  \<^verbatim>\<open>error\<close> key, and starts the cleanup; with a token configured the failure is logged.
\<close>

theorem notification_failure_swallowed:
  assumes "raised (download_file_background cfg L w fid fn path) = None"
  shows "let failing = w\<lparr>requests_put := Inl err\<rparr>;
             s' = final L fid fn (download_file_background cfg L failing fid fn path) s
         in raised (download_file_background cfg L failing fid fn path) = None \<and>
            active_downloads s' =
              active_downloads (final L fid fn (download_file_background cfg L w fid fn path) s) \<and>
            map_option status (active_downloads s' fid) = Some ''completed'' \<and>
            map_option progress (active_downloads s' fid) = Some 100 \<and>
            map_option error (active_downloads s' fid) = Some None \<and>
            cleanups s' = cleanups s @ [(fid, 30)] \<and>
            (PLEX_TOKEN cfg \<noteq> [] \<longrightarrow>
               (ERROR, ''Error triggering Plex library refresh: '' @ err) \<in> set (logs s'))"
proof -
  let ?w = "w\<lparr>requests_put := Inl err\<rparr>"
  let ?gen = "download_file_background cfg L ?w fid fn path"
  have r: "raised ?gen = None"
    using assms by (simp add: raised_background_put)
  have same: "active_downloads (final L fid fn ?gen s) =
                active_downloads (final L fid fn (download_file_background cfg L w fid fn path) s)"
  proof
    fix x
    show "active_downloads (final L fid fn ?gen s) x =
            active_downloads (final L fid fn (download_file_background cfg L w fid fn path) s) x"
      using final_completed [OF r, of s x] final_completed [OF assms, of s x]
      by (simp add: observers_put)
  qed
  have entry: "active_downloads (final L fid fn ?gen s) fid =
           Some \<lparr>status = ''completed'', fileName = fn, progress = 100,
                  message = ''Download completed!'', startTime = Some (time_time ?w),
                  totalSize = Some (total_size_of ?w),
                  downloadedSize = (if 0 < total_size_of ?w \<and> 0 < received ?w
                                    then Some (received ?w) else None),
                  filePath = Some (os_path_join path (local_name ?w fn)),
                  finalSize = Some (received ?w), error = None\<rparr>"
    using final_completed [OF r, of s fid] by simp
  have cl: "cleanups (final L fid fn ?gen s) = cleanups s @ [(fid, 30)]"
    using r by (simp add: final_background_cleanups scheduled_background)
  have lg: "PLEX_TOKEN cfg \<noteq> [] \<Longrightarrow>
      (ERROR, ''Error triggering Plex library refresh: '' @ err) \<in> set (logs (final L fid fn ?gen s))"
    using background_logs_failure [OF r, of err] by (simp add: final_background_logs [OF r])
  show ?thesis
    unfolding Let_def using r same entry cl lg by simp
qed

theorem notification_failure_swallowed_witness:
  "raised (download_file_background example_config example_lib example_world ''abc'' None ''/downloads/movies'') = None \<and>
   map_option status (active_downloads (final example_lib ''abc'' None
      (download_file_background example_config example_lib
         (example_world\<lparr>requests_put := Inl ''Connection refused''\<rparr>) ''abc'' None ''/downloads/movies'')
      idle_shared) ''abc'') = Some ''completed'' \<and>
   (ERROR, ''Error triggering Plex library refresh: '' @ ''Connection refused'')
     \<in> set (logs (final example_lib ''abc'' None
      (download_file_background example_config example_lib
         (example_world\<lparr>requests_put := Inl ''Connection refused''\<rparr>) ''abc'' None ''/downloads/movies'')
      idle_shared))"
proof -
  have r: "raised (download_file_background example_config example_lib example_world ''abc'' None ''/downloads/movies'') = None"
    by (simp add: example_steps)
  have tok: "PLEX_TOKEN example_config \<noteq> []"
    by (simp add: example_config_def)
  show ?thesis
    using r tok
      notification_failure_swallowed [OF r, where s = idle_shared
        and err = "''Connection refused''", unfolded Let_def]
    by blast
qed

subsection \<open>The loop over the chunks\<close>


lemma band: "0 < t \<Longrightarrow> 10 \<le> min 90 (10 + (int d * 80) div t) \<and> min 90 (10 + (int d * 80) div t) \<le> 90"
  by (simp add: pos_imp_zdiv_nonneg_iff)




subsection \<open>The progress a poller reads\<close>

lemma progress_in_simps:
  "progress_in fid (s\<lparr>active_downloads := (active_downloads s)(fid \<mapsto> e)\<rparr>) = progress e"
  "progress_in fid (s\<lparr>logs := lg\<rparr>) = progress_in fid s"
  "progress_in fid (s\<lparr>cleanups := cl\<rparr>) = progress_in fid s"
  "progress_in fid (except_handler x fid n s) = 0"
  by (simp_all add: progress_in_def except_handler_def)

lemma progress_in_present: "active_downloads s fid = Some e \<Longrightarrow> progress_in fid s = progress e"
  by (simp add: progress_in_def)

lemma states_nonempty: "as \<noteq> [] \<Longrightarrow> states L fid fn as s \<noteq> []"
  by (cases as) (simp_all split: prod.splits)

lemma rising_states_ok:
  "active_downloads s fid = Some e \<Longrightarrow> progress e = p \<Longrightarrow> p \<le> 100 \<Longrightarrow> rising p as \<Longrightarrow>
   raised as = None \<Longrightarrow>
   sorted (p # map (progress_in fid) (states L fid fn as s)) \<and>
   (\<forall>x \<in> set (map (progress_in fid) (states L fid fn as s)). x \<le> 100)"
proof (induction as arbitrary: s fn e p)
  case Nil
  then show ?case by simp
next
  case (Cons a as)
  show ?case
  proof (cases a)
    case (Assign e')
    let ?s = "s\<lparr>active_downloads := (active_downloads s)(fid \<mapsto> e')\<rparr>"
    have "sorted (progress e' # map (progress_in fid) (states L fid fn as ?s)) \<and>
          (\<forall>x \<in> set (map (progress_in fid) (states L fid fn as ?s)). x \<le> 100)"
      using Cons.prems Assign by (intro Cons.IH [of ?s e']) simp_all
    then show ?thesis
      using Cons.prems Assign by (auto simp add: progress_in_simps progress_in_present)
  next
    case (Update f)
    let ?s = "s\<lparr>active_downloads := (active_downloads s)(fid \<mapsto> set_field f e)\<rparr>"
    have r: "rising (progress (set_field f e)) as \<and> p \<le> progress (set_field f e) \<and>
             progress (set_field f e) \<le> 100"
      using Cons.prems Update by (cases f) simp_all
    have "sorted (progress (set_field f e) # map (progress_in fid) (states L fid fn as ?s)) \<and>
          (\<forall>x \<in> set (map (progress_in fid) (states L fid fn as ?s)). x \<le> 100)"
      using Cons.prems Update r by (intro Cons.IH [of ?s "set_field f e"]) simp_all
    then show ?thesis
      using Cons.prems Update r by (auto simp add: progress_in_simps progress_in_present)
  next
    case (Rebind n)
    have "sorted (p # map (progress_in fid) (states L fid (Some n) as s)) \<and>
          (\<forall>x \<in> set (map (progress_in fid) (states L fid (Some n) as s)). x \<le> 100)"
      using Cons.prems Rebind by (intro Cons.IH [of s e]) simp_all
    then show ?thesis
      using Cons.prems Rebind by (auto simp add: progress_in_simps progress_in_present)
  next
    case (Log l m)
    let ?s = "s\<lparr>logs := logs s @ [(l, m)]\<rparr>"
    have "sorted (p # map (progress_in fid) (states L fid fn as ?s)) \<and>
          (\<forall>x \<in> set (map (progress_in fid) (states L fid fn as ?s)). x \<le> 100)"
      using Cons.prems Log by (intro Cons.IH [of ?s e]) simp_all
    then show ?thesis
      using Cons.prems Log by (auto simp add: progress_in_simps progress_in_present)
  next
    case (Raise x)
    with Cons.prems show ?thesis by simp
  next
    case (StartCleanup d)
    let ?s = "s\<lparr>cleanups := cleanups s @ [(fid, d)]\<rparr>"
    have "sorted (p # map (progress_in fid) (states L fid fn as ?s)) \<and>
          (\<forall>x \<in> set (map (progress_in fid) (states L fid fn as ?s)). x \<le> 100)"
      using Cons.prems StartCleanup by (intro Cons.IH [of ?s e]) simp_all
    then show ?thesis
      using Cons.prems StartCleanup by (auto simp add: progress_in_simps progress_in_present)
  qed
qed

lemma rising_states_failed:
  "active_downloads s fid = Some e \<Longrightarrow> progress e = p \<Longrightarrow> p \<le> 100 \<Longrightarrow> rising p as \<Longrightarrow>
   raised as = Some err \<Longrightarrow>
   sorted (p # map (progress_in fid) (butlast (states L fid fn as s))) \<and>
   (\<forall>x \<in> set (map (progress_in fid) (butlast (states L fid fn as s))). x \<le> 100) \<and>
   progress_in fid (last (states L fid fn as s)) = 0"
proof (induction as arbitrary: s fn e p)
  case Nil
  then show ?case by simp
next
  case (Cons a as)
  show ?case
  proof (cases a)
    case (Assign e')
    let ?s = "s\<lparr>active_downloads := (active_downloads s)(fid \<mapsto> e')\<rparr>"
    have ne: "states L fid fn as ?s \<noteq> []"
      using Cons.prems Assign by (intro states_nonempty) auto
    have "sorted (progress e' # map (progress_in fid) (butlast (states L fid fn as ?s))) \<and>
          (\<forall>x \<in> set (map (progress_in fid) (butlast (states L fid fn as ?s))). x \<le> 100) \<and>
          progress_in fid (last (states L fid fn as ?s)) = 0"
      using Cons.prems Assign by (intro Cons.IH [of ?s e']) simp_all
    then show ?thesis
      using Cons.prems Assign ne by (auto simp add: progress_in_simps progress_in_present)
  next
    case (Update f)
    let ?s = "s\<lparr>active_downloads := (active_downloads s)(fid \<mapsto> set_field f e)\<rparr>"
    have ne: "states L fid fn as ?s \<noteq> []"
      using Cons.prems Update by (intro states_nonempty) auto
    have r: "rising (progress (set_field f e)) as \<and> p \<le> progress (set_field f e) \<and>
             progress (set_field f e) \<le> 100"
      using Cons.prems Update by (cases f) simp_all
    have "sorted (progress (set_field f e) # map (progress_in fid) (butlast (states L fid fn as ?s))) \<and>
          (\<forall>x \<in> set (map (progress_in fid) (butlast (states L fid fn as ?s))). x \<le> 100) \<and>
          progress_in fid (last (states L fid fn as ?s)) = 0"
      using Cons.prems Update r by (intro Cons.IH [of ?s "set_field f e"]) simp_all
    then show ?thesis
      using Cons.prems Update r ne by (auto simp add: progress_in_simps progress_in_present)
  next
    case (Rebind n)
    have ne: "states L fid (Some n) as s \<noteq> []"
      using Cons.prems Rebind by (intro states_nonempty) auto
    have "sorted (p # map (progress_in fid) (butlast (states L fid (Some n) as s))) \<and>
          (\<forall>x \<in> set (map (progress_in fid) (butlast (states L fid (Some n) as s))). x \<le> 100) \<and>
          progress_in fid (last (states L fid (Some n) as s)) = 0"
      using Cons.prems Rebind by (intro Cons.IH [of s e]) simp_all
    then show ?thesis
      using Cons.prems Rebind ne by (auto simp add: progress_in_simps progress_in_present)
  next
    case (Log l m)
    let ?s = "s\<lparr>logs := logs s @ [(l, m)]\<rparr>"
    have ne: "states L fid fn as ?s \<noteq> []"
      using Cons.prems Log by (intro states_nonempty) auto
    have "sorted (p # map (progress_in fid) (butlast (states L fid fn as ?s))) \<and>
          (\<forall>x \<in> set (map (progress_in fid) (butlast (states L fid fn as ?s))). x \<le> 100) \<and>
          progress_in fid (last (states L fid fn as ?s)) = 0"
      using Cons.prems Log by (intro Cons.IH [of ?s e]) simp_all
    then show ?thesis
      using Cons.prems Log ne by (auto simp add: progress_in_simps progress_in_present)
  next
    case (Raise x)
    with Cons.prems show ?thesis by (simp add: progress_in_simps)
  next
    case (StartCleanup d)
    let ?s = "s\<lparr>cleanups := cleanups s @ [(fid, d)]\<rparr>"
    have ne: "states L fid fn as ?s \<noteq> []"
      using Cons.prems StartCleanup by (intro states_nonempty) auto
    have "sorted (p # map (progress_in fid) (butlast (states L fid fn as ?s))) \<and>
          (\<forall>x \<in> set (map (progress_in fid) (butlast (states L fid fn as ?s))). x \<le> 100) \<and>
          progress_in fid (last (states L fid fn as ?s)) = 0"
      using Cons.prems StartCleanup by (intro Cons.IH [of ?s e]) simp_all
    then show ?thesis
      using Cons.prems StartCleanup ne by (auto simp add: progress_in_simps progress_in_present)
  qed
qed

lemma rising_write_chunks:
  "10 \<le> p \<Longrightarrow> p \<le> 90 \<Longrightarrow> (0 < t \<Longrightarrow> p \<le> min 90 (10 + (int d * 80) div t)) \<Longrightarrow>
   (\<And>q. q \<le> 90 \<Longrightarrow> rising q rest) \<Longrightarrow>
   rising p (fst (write_chunks t d cs en) @ rest)"
proof (induction t d cs en arbitrary: p rule: write_chunks.induct)
  case (1 total_size downloaded_size "end")
  then show ?case by simp
next
  case (2 total_size downloaded_size n w chunks "end")
  show ?case
  proof (cases "n = 0")
    case True
    with 2 show ?thesis by simp
  next
    case False
    show ?thesis
    proof (cases w)
      case (Some e)
      with False "2.prems" show ?thesis by simp
    next
      case None
      show ?thesis
      proof (cases "0 < total_size")
        case True
        let ?q = "min 90 (10 + (int (downloaded_size + n) * 80) div total_size)"
        have m: "(int downloaded_size * 80) div total_size \<le> (int (downloaded_size + n) * 80) div total_size"
          using True by (intro zdiv_mono1) simp_all
        have pq: "p \<le> ?q"
          using "2.prems"(3) [OF True] m by simp
        have b: "10 \<le> ?q \<and> ?q \<le> 90"
          using True by (rule band)
        have "rising ?q (fst (write_chunks total_size (downloaded_size + n) chunks end) @ rest)"
          using b "2.prems"(4) by (intro "2.IH"(2) [OF False None refl refl refl]) simp_all
        then show ?thesis
          using False None True pq b by (simp add: Let_def)
      next
        case F: False
        have "rising p (fst (write_chunks total_size (downloaded_size + n) chunks end) @ rest)"
          using "2.prems" F by (intro "2.IH"(2) [OF False None refl refl refl]) simp_all
        then show ?thesis
          using False None F by (simp add: Let_def)
      qed
    qed
  qed
qed

lemma rising_after_stream: "q \<le> 100 \<Longrightarrow> rising q (after_stream cfg L w n p d)"
  by (cases "os_chmod w"; cases "requests_put w") (simp_all add: after_stream_def)

lemma rising_transfer: "p \<le> 5 \<Longrightarrow> rising p (transfer cfg L w ex name path)"
  by (simp add: transfer_def Let_def case_prod_beta rising_write_chunks rising_after_stream
      split: sum.splits option.splits)

lemma rising_background: "rising 0 (tl (download_file_background cfg L w fid fn path))"
  by (simp add: download_file_background_def Let_def rising_transfer
      split: sum.splits option.splits)

text \<open>
  Claim C3, as the code has it. Every progress value a poller reads during a thread's run
  lies between 0 and 100. When no outside call raises, the values never go down. When
  one raises, they never go down up to the \<^verbatim>\<open>except\<close> clause, whose write sets 0.
\<close>

theorem progress_history:
  "let steps = download_file_background cfg L w fid fn path;
       history = map (progress_in fid) (states L fid fn steps s)
   in (\<forall>x \<in> set history. 0 \<le> x \<and> x \<le> 100) \<and>
      (raised steps = None \<longrightarrow> sorted history) \<and>
      (raised steps \<noteq> None \<longrightarrow> sorted (butlast history) \<and> last history = 0)"
proof -
  let ?gen = "download_file_background cfg L w fid fn path"
  obtain e0 where g: "?gen = Assign e0 # tl ?gen" and p0: "progress e0 = 0"
    using background_Cons [of cfg L w fid fn path] by (metis entry.select_convs(3))
  let ?s = "s\<lparr>active_downloads := (active_downloads s)(fid \<mapsto> e0)\<rparr>"
  let ?rest = "states L fid fn (tl ?gen) ?s"
  have st: "states L fid fn ?gen s = ?s # ?rest"
    by (subst g) simp
  have h0: "progress_in fid ?s = 0"
    using p0 by (simp add: progress_in_simps)
  have pres: "active_downloads ?s fid = Some e0"
    by simp
  have ris: "rising 0 (tl ?gen)"
    by (rule rising_background)
  show ?thesis
  proof (cases "raised ?gen")
    case None
    then have r: "raised (tl ?gen) = None"
      by (subst (asm) g) simp
    have "sorted (0 # map (progress_in fid) ?rest) \<and>
          (\<forall>x \<in> set (map (progress_in fid) ?rest). x \<le> 100)"
      using rising_states_ok [OF pres p0 _ ris r, of L fn] by simp
    then show ?thesis
      unfolding Let_def using None st h0 by auto
  next
    case (Some err)
    then have r: "raised (tl ?gen) = Some err"
      by (subst (asm) g) simp
    have ne: "?rest \<noteq> []"
      using r by (intro states_nonempty) auto
    have f: "sorted (0 # map (progress_in fid) (butlast ?rest)) \<and>
          (\<forall>x \<in> set (map (progress_in fid) (butlast ?rest)). x \<le> 100) \<and>
          progress_in fid (last ?rest) = 0"
      using rising_states_failed [OF pres p0 _ ris r, of L fn] by simp
    have split: "set ?rest = set (butlast ?rest) \<union> {last ?rest}"
      using ne by (metis append_butlast_last_id list.simps(15) rotate1.simps(2) set_rotate1 Un_commute insert_is_Un)
    have all: "\<forall>x \<in> set ?rest. 0 \<le> progress_in fid x \<and> progress_in fid x \<le> 100"
      using f split by auto
    have bl: "sorted (butlast (map (progress_in fid) (?s # ?rest)))"
      using f ne h0 by (simp add: map_butlast)
    have la: "last (map (progress_in fid) (?s # ?rest)) = 0"
      using f ne by (simp add: last_map)
    show ?thesis
      unfolding Let_def st using Some all bl la h0 by simp
  qed
qed

theorem progress_history_witness:
  "raised (download_file_background example_config example_lib example_world ''abc'' None ''/downloads/movies'') = None \<and>
   sorted (map (progress_in ''abc'') (states example_lib ''abc'' None
     (download_file_background example_config example_lib example_world ''abc'' None ''/downloads/movies'')
     idle_shared)) \<and>
   raised (download_file_background example_config example_lib broken_world ''abc'' (Some ''abc.mkv'') ''/downloads/movies'') \<noteq> None \<and>
   last (map (progress_in ''abc'') (states example_lib ''abc'' (Some ''abc.mkv'')
     (download_file_background example_config example_lib broken_world ''abc'' (Some ''abc.mkv'') ''/downloads/movies'')
     idle_shared)) = 0"
proof -
  have r: "raised (download_file_background example_config example_lib example_world ''abc'' None ''/downloads/movies'') = None"
    by (simp add: example_steps)
  have f: "raised (download_file_background example_config example_lib broken_world ''abc'' (Some ''abc.mkv'') ''/downloads/movies'') \<noteq> None"
    by (simp add: broken_steps)
  show ?thesis
    using r f
      progress_history [of example_config example_lib example_world "''abc''" None
        "''/downloads/movies''" idle_shared, unfolded Let_def]
      progress_history [of example_config example_lib broken_world "''abc''" "Some ''abc.mkv''"
        "''/downloads/movies''" idle_shared, unfolded Let_def]
    by blast
qed

text \<open>
  Claim C3 as stated fails: when the stream breaks after the first chunk, the progress
  values a poller reads end with 50 and then 0.
\<close>

theorem progress_drops_on_failure:
  "map (progress_in ''abc'') (states example_lib ''abc'' (Some ''abc.mkv'')
     (download_file_background example_config example_lib broken_world ''abc'' (Some ''abc.mkv'') ''/downloads/movies'')
     idle_shared) =
   [0, 0, 5, 5, 5, 10, 10, 50, 50, 50, 0] \<and>
   \<not> sorted (map (progress_in ''abc'') (states example_lib ''abc'' (Some ''abc.mkv'')
     (download_file_background example_config example_lib broken_world ''abc'' (Some ''abc.mkv'') ''/downloads/movies'')
     idle_shared))"
  by (simp add: broken_steps progress_in_def idle_shared_def except_handler_def)

subsection \<open>A stream of unknown size\<close>

lemma write_chunks_unknown: "t \<le> 0 \<Longrightarrow> fst (write_chunks t d cs en) = []"
  by (induction t d cs en rule: write_chunks.induct)
     (simp_all add: Let_def split: option.splits)

lemma untouched_after_stream: "list_all untouched (after_stream cfg L w n p d)"
  by (cases "os_chmod w"; cases "requests_put w") (simp_all add: after_stream_def)

lemma untouched_transfer:
  assumes "\<And>r. session_get w = Inr r \<Longrightarrow>
             (case content_length r of None \<Rightarrow> ex | Some (Inl e) \<Rightarrow> 0 | Some (Inr n) \<Rightarrow> n) \<le> 0"
  shows "list_all untouched (transfer cfg L w ex name path)"
proof (cases "session_get w")
  case (Inl e)
  then show ?thesis
    by (simp add: transfer_def split: option.splits)
next
  case (Inr r)
  note b = assms [OF Inr]
  show ?thesis
  proof (cases "content_length r")
    case None
    with b have "ex \<le> 0" by simp
    then show ?thesis
      using Inr None
      by (simp add: transfer_def Let_def case_prod_beta write_chunks_unknown
            untouched_after_stream split: sum.splits option.splits)
  next
    case (Some parsed)
    show ?thesis
    proof (cases parsed)
      case (Inl e)
      then show ?thesis
        using Inr Some by (simp add: transfer_def split: option.splits)
    next
      case (Inr n)
      with b Some have "n \<le> 0" by simp
      then show ?thesis
        using \<open>session_get w = Inr r\<close> Some Inr
        by (simp add: transfer_def Let_def case_prod_beta write_chunks_unknown
              untouched_after_stream split: sum.splits option.splits)
    qed
  qed
qed

lemma untouched_background:
  assumes "total_size_of w \<le> 0"
  shows "list_all untouched (download_file_background cfg L w fid fn path)"
proof (cases "initiate_download w")
  case (Inl e)
  then show ?thesis
    by (simp add: download_file_background_def)
next
  case (Inr info)
  have t: "list_all untouched
             (transfer cfg L w (case info_fileSize info of None \<Rightarrow> 0 | Some n \<Rightarrow> n) name path)" for name
  proof (rule untouched_transfer)
    fix r
    assume "session_get w = Inr r"
    then show "(case content_length r of None \<Rightarrow> (case info_fileSize info of None \<Rightarrow> 0 | Some n \<Rightarrow> n)
                | Some (Inl e) \<Rightarrow> 0 | Some (Inr n) \<Rightarrow> n) \<le> 0"
      using assms Inr by (simp add: total_size_of_def split: option.splits sum.splits)
  qed
  show ?thesis
    using Inr t by (simp add: download_file_background_def Let_def split: option.splits)
qed

lemma downloaded_in_simps:
  "downloaded_in fid (s\<lparr>active_downloads := (active_downloads s)(fid \<mapsto> e)\<rparr>) = downloadedSize e"
  "downloaded_in fid (s\<lparr>logs := lg\<rparr>) = downloaded_in fid s"
  "downloaded_in fid (s\<lparr>cleanups := cl\<rparr>) = downloaded_in fid s"
  "downloaded_in fid (except_handler x fid n s) = None"
  by (simp_all add: downloaded_in_def except_handler_def)

lemma downloaded_in_present:
  "active_downloads s fid = Some e \<Longrightarrow> downloaded_in fid s = downloadedSize e"
  by (simp add: downloaded_in_def)

lemma untouched_states:
  "active_downloads s fid = Some e \<Longrightarrow> downloadedSize e = None \<Longrightarrow>
   progress e \<in> {0, 5, 10, 100} \<Longrightarrow> list_all untouched as \<Longrightarrow>
   \<forall>s' \<in> set (states L fid fn as s).
      downloaded_in fid s' = None \<and> progress_in fid s' \<in> {0, 5, 10, 100}"
proof (induction as arbitrary: s fn e)
  case Nil
  then show ?case by simp
next
  case (Cons a as)
  show ?case
  proof (cases a)
    case (Assign e')
    let ?s = "s\<lparr>active_downloads := (active_downloads s)(fid \<mapsto> e')\<rparr>"
    have "\<forall>s' \<in> set (states L fid fn as ?s).
            downloaded_in fid s' = None \<and> progress_in fid s' \<in> {0, 5, 10, 100}"
      using Cons.prems Assign by (intro Cons.IH [of ?s e']) simp_all
    then show ?thesis
      using Cons.prems Assign
      by (simp add: progress_in_simps downloaded_in_simps)
  next
    case (Update f)
    let ?s = "s\<lparr>active_downloads := (active_downloads s)(fid \<mapsto> set_field f e)\<rparr>"
    have k: "downloadedSize (set_field f e) = None \<and> progress (set_field f e) \<in> {0, 5, 10, 100}"
      using Cons.prems Update by (cases f) simp_all
    have "\<forall>s' \<in> set (states L fid fn as ?s).
            downloaded_in fid s' = None \<and> progress_in fid s' \<in> {0, 5, 10, 100}"
      using Cons.prems Update k by (intro Cons.IH [of ?s "set_field f e"]) simp_all
    then show ?thesis
      using Cons.prems Update k
      by (simp add: progress_in_simps downloaded_in_simps)
  next
    case (Rebind n)
    have "\<forall>s' \<in> set (states L fid (Some n) as s).
            downloaded_in fid s' = None \<and> progress_in fid s' \<in> {0, 5, 10, 100}"
      using Cons.prems Rebind by (intro Cons.IH [of s e]) simp_all
    then show ?thesis
      using Cons.prems Rebind
      by (simp add: progress_in_present downloaded_in_present)
  next
    case (Log l m)
    let ?s = "s\<lparr>logs := logs s @ [(l, m)]\<rparr>"
    have "\<forall>s' \<in> set (states L fid fn as ?s).
            downloaded_in fid s' = None \<and> progress_in fid s' \<in> {0, 5, 10, 100}"
      using Cons.prems Log by (intro Cons.IH [of ?s e]) simp_all
    then show ?thesis
      using Cons.prems Log
      by (simp add: progress_in_simps downloaded_in_simps progress_in_present downloaded_in_present)
  next
    case (Raise x)
    then show ?thesis
      by (simp add: progress_in_simps downloaded_in_simps)
  next
    case (StartCleanup d)
    let ?s = "s\<lparr>cleanups := cleanups s @ [(fid, d)]\<rparr>"
    have "\<forall>s' \<in> set (states L fid fn as ?s).
            downloaded_in fid s' = None \<and> progress_in fid s' \<in> {0, 5, 10, 100}"
      using Cons.prems StartCleanup by (intro Cons.IH [of ?s e]) simp_all
    then show ?thesis
      using Cons.prems StartCleanup
      by (simp add: progress_in_simps downloaded_in_simps progress_in_present downloaded_in_present)
  qed
qed

lemma unknown_size_steps:
  "download_file_background example_config example_lib unknown_size_world ''abc'' None ''/downloads/movies'' =
     [Assign \<lparr>status = ''downloading'', fileName = None, progress = 0,
              message = ''Starting download...'', startTime = Some 0,
              totalSize = None, downloadedSize = None, filePath = None, finalSize = None,
              error = None\<rparr>,
      Rebind ''abc.mkv'',
      Update (Message ''Connecting to server...''), Update (Progress 5),
      Log INFO ''Starting download of abc.mkv...'',
      Update (Message ''Downloading... 0%''), Update (Progress 10), Update (TotalSize 0),
      Log INFO ''Set file permissions to 644 for abc.mkv'',
      Update (Status ''completed''), Update (Progress 100),
      Update (Message ''Download completed!''),
      Update (FilePath ''/downloads/movies/abc.mkv''), Update (FinalSize 1000),
      Log INFO ''Download completed: abc.mkv (1000 B)'',
      Log INFO ''Successfully triggered Plex library refresh'',
      StartCleanup 30]"
  by (simp add: download_file_background_def transfer_def after_stream_def unknown_size_world_def
        example_world_def example_response_def example_config_def example_lib_def bytes_text_def
        truthy_def Let_def str_int_def str_nat.simps os_path_join_def)

text \<open>
  Claim C4, as the code has it. When the total size is not positive, the loop over the
  chunks writes nothing to the entry. In every state of the thread's run the entry has no
  \<^verbatim>\<open>downloadedSize\<close> and its progress is 0, 5, 10 (the value set before the loop) or the
  final 100; the bytes received reach the entry only as \<^verbatim>\<open>finalSize\<close>, when the thread
  completes.
\<close>

theorem unknown_size_streaming:
  assumes "total_size_of w \<le> 0"
  shows "fst (write_chunks (total_size_of w) downloaded_size chunks end) = [] \<and>
         (\<forall>s' \<in> set (states L fid fn (download_file_background cfg L w fid fn path) s).
            downloaded_in fid s' = None \<and> progress_in fid s' \<in> {0, 5, 10, 100}) \<and>
         (raised (download_file_background cfg L w fid fn path) = None \<longrightarrow>
            map_option finalSize
              (active_downloads (final L fid fn (download_file_background cfg L w fid fn path) s) fid) =
            Some (Some (received w)))"
proof -
  let ?gen = "download_file_background cfg L w fid fn path"
  obtain e0 where g: "?gen = Assign e0 # tl ?gen" and p0: "progress e0 = 0"
    and d0: "downloadedSize e0 = None"
    using background_Cons [of cfg L w fid fn path]
    by (metis entry.select_convs(3) entry.select_convs(7))
  let ?s = "s\<lparr>active_downloads := (active_downloads s)(fid \<mapsto> e0)\<rparr>"
  have u: "list_all untouched (tl ?gen)"
    using untouched_background [OF assms, of cfg L fid fn path] by (subst (asm) g) simp
  have st: "states L fid fn ?gen s = ?s # states L fid fn (tl ?gen) ?s"
    by (subst g) simp
  have "\<forall>s' \<in> set (states L fid fn (tl ?gen) ?s).
          downloaded_in fid s' = None \<and> progress_in fid s' \<in> {0, 5, 10, 100}"
    using p0 d0 u by (intro untouched_states [of ?s fid e0]) simp_all
  then have a: "\<forall>s' \<in> set (states L fid fn ?gen s).
          downloaded_in fid s' = None \<and> progress_in fid s' \<in> {0, 5, 10, 100}"
    unfolding st using p0 d0 by (simp add: progress_in_simps downloaded_in_simps)
  have b: "fst (write_chunks (total_size_of w) downloaded_size chunks end) = []"
    using assms by (rule write_chunks_unknown)
  have c: "raised ?gen = None \<Longrightarrow>
            map_option finalSize (active_downloads (final L fid fn ?gen s) fid) = Some (Some (received w))"
    using final_completed [of cfg L w fid fn path s fid] by simp
  show ?thesis
    using a b c by blast
qed

theorem unknown_size_streaming_witness:
  "total_size_of unknown_size_world \<le> 0 \<and>
   fst (write_chunks (total_size_of unknown_size_world) 0 [Chunk 500 None, Chunk 500 None] None) = [] \<and>
   raised (download_file_background example_config example_lib unknown_size_world ''abc'' None ''/downloads/movies'') = None \<and>
   map_option finalSize (active_downloads (final example_lib ''abc'' None
      (download_file_background example_config example_lib unknown_size_world ''abc'' None ''/downloads/movies'')
      idle_shared) ''abc'') = Some (Some (received unknown_size_world))"
proof -
  have h: "total_size_of unknown_size_world \<le> 0"
    by (simp add: total_size_of_def unknown_size_world_def example_world_def example_response_def)
  have r: "raised (download_file_background example_config example_lib unknown_size_world ''abc'' None ''/downloads/movies'') = None"
    by (simp add: unknown_size_steps)
  show ?thesis
    using h r unknown_size_streaming [OF h, of 0 "[Chunk 500 None, Chunk 500 None]" None
        example_lib "''abc''" None example_config "''/downloads/movies''" idle_shared]
    by blast
qed

text \<open>
  Claim C4 as stated fails: with no content length, two chunks of 500 bytes are received
  and written, the loop makes no step, and the completed entry has no \<^verbatim>\<open>downloadedSize\<close>
  although its \<^verbatim>\<open>finalSize\<close> is 1000.
\<close>

theorem downloaded_size_not_updated:
  "write_chunks 0 0 [Chunk 500 None, Chunk 500 None] None = ([], Inr 1000) \<and>
   active_downloads (final example_lib ''abc'' None
      (download_file_background example_config example_lib unknown_size_world ''abc'' None ''/downloads/movies'')
      idle_shared) ''abc'' =
     Some \<lparr>status = ''completed'', fileName = None, progress = 100,
            message = ''Download completed!'', startTime = Some 0,
            totalSize = Some 0, downloadedSize = None,
            filePath = Some ''/downloads/movies/abc.mkv'',
            finalSize = Some 1000, error = None\<rparr>"
  by (simp add: unknown_size_steps idle_shared_def)

subsection \<open>The process\<close>

lemma spawn_absent:
  "spawn (download cfg active body) = Some (f, n, p) \<Longrightarrow> active f = None"
  by (auto simp add: download_def Let_def split: sum.splits option.splits if_splits)

lemma perform_other:
  fixes s :: system
  assumes "f \<noteq> fid"
  shows "active_downloads (fst (perform L f n a s)) fid = active_downloads s fid \<and>
         set (map fst (cleanups (fst (perform L f n a s)))) \<subseteq> insert f (set (map fst (cleanups s))) \<and>
         threads (fst (perform L f n a s)) = threads s"
  using assms by (cases a) (auto simp add: except_handler_def split: option.splits)

lemma perform_present:
  fixes s :: system
  shows "active_downloads s x \<noteq> None \<Longrightarrow> active_downloads (fst (perform L f n a s)) x \<noteq> None"
  by (cases a) (auto simp add: except_handler_def split: option.splits)

lemma event_keeps_idle:
  assumes "idle fid s" and "active_downloads s fid \<noteq> None"
  shows "idle fid (apply_event cfg L s ev) \<and>
         active_downloads (apply_event cfg L s ev) fid = active_downloads s fid"
proof (cases ev)
  case (Post body w)
  show ?thesis
  proof (cases "spawn (download cfg (active_downloads s) body)")
    case None
    with Post assms show ?thesis by (simp add: idle_def Let_def)
  next
    case (Some x)
    obtain f n p where x: "x = (f, n, p)" by (cases x)
    have "f \<noteq> fid"
      using spawn_absent [of cfg "active_downloads s" body f n p] Some x assms(2) by auto
    with Post assms Some x show ?thesis by (simp add: idle_def Let_def)
  qed
next
  case (Run i)
  show ?thesis
  proof (cases "i < length (threads s)")
    case False
    with Run assms show ?thesis by simp
  next
    case True
    let ?t = "threads s ! i"
    show ?thesis
    proof (cases "todo ?t")
      case Nil
      with Run True assms show ?thesis by simp
    next
      case (Cons a as)
      have mem: "?t \<in> set (threads s)"
        using True by simp
      have other: "its_file_id ?t \<noteq> fid"
        using assms(1) mem Cons by (auto simp add: idle_def)
      obtain s' n' g where p: "perform L (its_file_id ?t) (its_file_name ?t) a s = (s', n', g)"
        by (cases "perform L (its_file_id ?t) (its_file_name ?t) a s")
      have k: "active_downloads s' fid = active_downloads s fid \<and>
               set (map fst (cleanups s')) \<subseteq> insert (its_file_id ?t) (set (map fst (cleanups s))) \<and>
               threads s' = threads s"
        using perform_other [OF other, of L "its_file_name ?t" a s] p by simp
      have ev: "apply_event cfg L s ev =
                  s'\<lparr>threads := (threads s')[i := ?t\<lparr>its_file_name := n',
                                               todo := (if g then as else [])\<rparr>]\<rparr>"
        using Run True Cons p by (simp add: Let_def)
      have th: "\<forall>t \<in> set ((threads s)[i := ?t\<lparr>its_file_name := n',
                                 todo := (if g then as else [])\<rparr>]). its_file_id t = fid \<longrightarrow> todo t = []"
      proof
        fix t
        assume "t \<in> set ((threads s)[i := ?t\<lparr>its_file_name := n', todo := (if g then as else [])\<rparr>])"
        then have "t = ?t\<lparr>its_file_name := n', todo := (if g then as else [])\<rparr> \<or> t \<in> set (threads s)"
          using set_update_subset_insert by fastforce
        then show "its_file_id t = fid \<longrightarrow> todo t = []"
          using other assms(1) by (auto simp add: idle_def)
      qed
      have cl: "fid \<notin> set (map fst (cleanups s'))"
        using k other assms(1) by (auto simp add: idle_def)
      show ?thesis
        unfolding ev using k th cl by (simp add: idle_def)
    qed
  qed
next
  case (Wake j)
  show ?thesis
  proof (cases "j < length (cleanups s)")
    case False
    with Wake assms show ?thesis by simp
  next
    case True
    have "fst (cleanups s ! j) \<in> set (map fst (cleanups s))"
      using True by simp
    then have other: "fst (cleanups s ! j) \<noteq> fid"
      using assms(1) by (auto simp add: idle_def)
    have sub: "set (take j (cleanups s) @ drop (Suc j) (cleanups s)) \<subseteq> set (cleanups s)"
      using set_take_subset set_drop_subset by fastforce
    have cl: "fid \<notin> set (map fst (take j (cleanups s) @ drop (Suc j) (cleanups s)))"
      using sub assms(1) by (auto simp add: idle_def dest: in_set_takeD in_set_dropD)
    show ?thesis
      using Wake True other cl assms by (simp add: idle_def cleanup_def)
  qed
qed

lemma events_keep_idle:
  "idle fid s \<Longrightarrow> active_downloads s fid = Some e \<Longrightarrow>
   idle fid (run_events cfg L es s) \<and> active_downloads (run_events cfg L es s) fid = Some e"
proof (induction es arbitrary: s)
  case Nil
  then show ?case by (simp add: run_events_def)
next
  case (Cons ev es)
  have "idle fid (apply_event cfg L s ev) \<and> active_downloads (apply_event cfg L s ev) fid = Some e"
    using event_keeps_idle [of fid s cfg L ev] Cons.prems by simp
  then show ?case
    using Cons.IH [of "apply_event cfg L s ev"] by (simp add: run_events_def)
qed

lemma first_steps:
  "download_file_background example_config example_lib unknown_size_world ''abc'' (Some ''abc.mkv'') ''/downloads/series'' =
     [Assign \<lparr>status = ''downloading'', fileName = Some ''abc.mkv'', progress = 0,
              message = ''Starting download...'', startTime = Some 0,
              totalSize = None, downloadedSize = None, filePath = None, finalSize = None,
              error = None\<rparr>,
      Update (Message ''Connecting to server...''), Update (Progress 5),
      Log INFO ''Starting download of abc.mkv...'',
      Update (Message ''Downloading... 0%''), Update (Progress 10), Update (TotalSize 0),
      Log INFO ''Set file permissions to 644 for abc.mkv'',
      Update (Status ''completed''), Update (Progress 100),
      Update (Message ''Download completed!''),
      Update (FilePath ''/downloads/series/abc.mkv''), Update (FinalSize 1000),
      Log INFO ''Download completed: abc.mkv (1000 B)'',
      Log INFO ''Successfully triggered Plex library refresh'',
      StartCleanup 30]"
  by (simp add: download_file_background_def transfer_def after_stream_def unknown_size_world_def
        example_world_def example_response_def example_config_def example_lib_def bytes_text_def
        truthy_def Let_def str_int_def str_nat.simps os_path_join_def)

lemma second_steps:
  "download_file_background example_config example_lib refusing_world ''abc'' (Some ''abc.mkv'') ''/downloads/series'' =
     [Assign \<lparr>status = ''downloading'', fileName = Some ''abc.mkv'', progress = 0,
              message = ''Starting download...'', startTime = Some 0,
              totalSize = None, downloadedSize = None, filePath = None, finalSize = None,
              error = None\<rparr>,
      Raise ''File not found'']"
  by (simp add: download_file_background_def refusing_world_def example_world_def)

lemma example_spawn:
  "active ''abc'' = None \<Longrightarrow>
   spawn (download example_config active (Inr example_request)) =
     Some (''abc'', Some ''abc.mkv'', ''/downloads/series'')"
  by (simp add: download_def example_request_def example_config_def truthy_def Let_def)

lemma after_first_thread:
  "active_downloads after_first =
     [''abc'' \<mapsto> \<lparr>status = ''completed'', fileName = Some ''abc.mkv'', progress = 100,
                    message = ''Download completed!'', startTime = Some 0,
                    totalSize = Some 0, downloadedSize = None,
                    filePath = Some ''/downloads/series/abc.mkv'',
                    finalSize = Some 1000, error = None\<rparr>]"
  "cleanups after_first = [(''abc'', 30)]"
  "threads after_first =
     [\<lparr>its_file_id = ''abc'', its_file_name = Some ''abc.mkv'', todo = []\<rparr>,
      \<lparr>its_file_id = ''abc'', its_file_name = Some ''abc.mkv'',
       todo = [Assign \<lparr>status = ''downloading'', fileName = Some ''abc.mkv'', progress = 0,
              message = ''Starting download...'', startTime = Some 0,
              totalSize = None, downloadedSize = None, filePath = None, finalSize = None,
              error = None\<rparr>,
      Raise ''File not found'']\<rparr>]"
  by (simp_all add: after_first_def run_events_def first_thread_done_def start_def Let_def
        example_spawn first_steps second_steps)

lemma second_thread_starts:
  "active_downloads second_started =
     [''abc'' \<mapsto> \<lparr>status = ''downloading'', fileName = Some ''abc.mkv'', progress = 0,
              message = ''Starting download...'', startTime = Some 0,
              totalSize = None, downloadedSize = None, filePath = None, finalSize = None,
              error = None\<rparr>]"
  "cleanups second_started = [(''abc'', 30)]"
  "threads second_started =
     [\<lparr>its_file_id = ''abc'', its_file_name = Some ''abc.mkv'', todo = []\<rparr>,
      \<lparr>its_file_id = ''abc'', its_file_name = Some ''abc.mkv'',
       todo = [Raise ''File not found'']\<rparr>]"
  by (simp_all add: second_started_def after_first_thread Let_def)

lemma second_thread_fails:
  "active_downloads second_failed =
     [''abc'' \<mapsto> \<lparr>status = ''error'', fileName = Some ''abc.mkv'', progress = 0,
            message = ''Download failed: File not found'', startTime = None, totalSize = None,
            downloadedSize = None, filePath = None, finalSize = None,
            error = Some ''File not found''\<rparr>]"
  "cleanups second_failed = [(''abc'', 30)]"
  "threads second_failed =
     [\<lparr>its_file_id = ''abc'', its_file_name = Some ''abc.mkv'', todo = []\<rparr>,
      \<lparr>its_file_id = ''abc'', its_file_name = Some ''abc.mkv'', todo = []\<rparr>]"
  by (simp_all add: second_failed_def second_thread_starts Let_def except_handler_def)

lemma run_events_append:
  "run_events cfg L (xs @ ys) s = run_events cfg L ys (run_events cfg L xs s)"
  by (simp add: run_events_def)

lemma event_removes:
  assumes "active_downloads t x \<noteq> None" and "active_downloads (apply_event cfg L t ev) x = None"
  shows "\<exists>j. ev = Wake j \<and> j < length (cleanups t) \<and> fst (cleanups t ! j) = x"
proof (cases ev)
  case (Post body w)
  with assms show ?thesis by (simp add: Let_def)
next
  case (Run i)
  show ?thesis
  proof (cases "i < length (threads t)")
    case False
    with Run assms show ?thesis by simp
  next
    case True
    show ?thesis
    proof (cases "todo (threads t ! i)")
      case Nil
      with Run True assms show ?thesis by simp
    next
      case (Cons a as)
      have "active_downloads (fst (perform L (its_file_id (threads t ! i))
               (its_file_name (threads t ! i)) a t)) x \<noteq> None"
        using assms(1) by (rule perform_present)
      with Run True Cons assms(2) show ?thesis
        by (simp add: Let_def split: prod.splits)
    qed
  qed
next
  case (Wake j)
  with assms show ?thesis
    by (auto simp add: cleanup_def split: if_splits)
qed

lemma wake_removes:
  "j < length (cleanups t) \<Longrightarrow>
   active_downloads (apply_event cfg L t (Wake j)) (fst (cleanups t ! j)) = None"
  by (simp add: cleanup_def)

subsection \<open>Eviction\<close>

text \<open>
  Claim C5, as the code has it. A thread that completes starts one cleanup, with a sleep
  of 30 seconds; a thread that fails starts none. When the sleep of a cleanup ends, the
  entry of its file id is removed whatever its status. An entry is removed by nothing
  but the end of the sleep of a cleanup for its file id.
\<close>

theorem eviction:
  fixes s :: "'a shared_scheme" and t :: system
  shows "(raised (download_file_background cfg L w fid fn path) = None \<longrightarrow>
            cleanups (final L fid fn (download_file_background cfg L w fid fn path) s) =
              cleanups s @ [(fid, 30)]) \<and>
         (raised (download_file_background cfg L w fid fn path) \<noteq> None \<longrightarrow>
            cleanups (final L fid fn (download_file_background cfg L w fid fn path) s) = cleanups s) \<and>
         (\<forall>j < length (cleanups t).
            active_downloads (apply_event cfg L t (Wake j)) (fst (cleanups t ! j)) = None) \<and>
         (\<forall>ev x. active_downloads t x \<noteq> None \<and> active_downloads (apply_event cfg L t ev) x = None \<longrightarrow>
            (\<exists>j. ev = Wake j \<and> j < length (cleanups t) \<and> fst (cleanups t ! j) = x))"
proof -
  have a: "raised (download_file_background cfg L w fid fn path) = None \<Longrightarrow>
            cleanups (final L fid fn (download_file_background cfg L w fid fn path) s) =
              cleanups s @ [(fid, 30)]"
    by (simp add: final_background_cleanups scheduled_background)
  have b: "raised (download_file_background cfg L w fid fn path) \<noteq> None \<Longrightarrow>
            cleanups (final L fid fn (download_file_background cfg L w fid fn path) s) = cleanups s"
    by (auto simp add: final_background_cleanups scheduled_background)
  show ?thesis
    using a b wake_removes [of _ t cfg L] event_removes [of t _ cfg L] by blast
qed

theorem eviction_witness:
  "raised (download_file_background example_config example_lib example_world ''abc'' None ''/downloads/movies'') = None \<and>
   cleanups (final example_lib ''abc'' None
      (download_file_background example_config example_lib example_world ''abc'' None ''/downloads/movies'')
      idle_shared) = cleanups idle_shared @ [(''abc'', 30)] \<and>
   0 < length (cleanups second_started) \<and>
   active_downloads second_started (fst (cleanups second_started ! 0)) \<noteq> None \<and>
   active_downloads (apply_event example_config example_lib second_started (Wake 0))
      (fst (cleanups second_started ! 0)) = None"
proof -
  have r: "raised (download_file_background example_config example_lib example_world ''abc'' None ''/downloads/movies'') = None"
    by (simp add: example_steps)
  have l: "0 < length (cleanups second_started)"
    by (simp add: second_thread_starts)
  have p: "active_downloads second_started (fst (cleanups second_started ! 0)) \<noteq> None"
    by (simp add: second_thread_starts)
  show ?thesis
    using r l p eviction [of example_config example_lib example_world "''abc''" None
        "''/downloads/movies''" idle_shared second_started]
    by blast
qed

text \<open>
  Claim C5 as stated fails: the cleanup of a completed thread removes the entry that a
  second thread for the same file id has just set to \<^verbatim>\<open>downloading\<close>.
\<close>

theorem cleanup_removes_running_entry:
  "map_option status (active_downloads (run_events example_config example_lib
      (first_thread_done refusing_world @ [Run 1]) start) ''abc'') = Some ''downloading'' \<and>
   active_downloads (run_events example_config example_lib
      (first_thread_done refusing_world @ [Run 1, Wake 0]) start) ''abc'' = None"
proof -
  have a: "run_events example_config example_lib (first_thread_done refusing_world @ [Run 1]) start =
          second_started"
    by (simp add: run_events_append after_first_def [symmetric] del: apply_event.simps)
       (simp add: run_events_def second_started_def del: apply_event.simps)
  have b: "run_events example_config example_lib (first_thread_done refusing_world @ [Run 1, Wake 0]) start =
          apply_event example_config example_lib second_started (Wake 0)"
    by (simp add: run_events_append after_first_def [symmetric] del: apply_event.simps)
       (simp add: run_events_def second_started_def del: apply_event.simps)
  show ?thesis
    unfolding a b by (simp add: second_thread_starts cleanup_def)
qed

subsection \<open>Failed entries\<close>

lemma failed_once_state:
  "active_downloads failed_once ''abc'' =
     Some \<lparr>status = ''error'', fileName = Some ''abc.mkv'', progress = 0,
            message = ''Download failed: File not found'', startTime = None, totalSize = None,
            downloadedSize = None, filePath = None, finalSize = None,
            error = Some ''File not found''\<rparr>"
  "idle ''abc'' failed_once"
  by (simp_all add: failed_once_def run_events_def start_def Let_def example_spawn second_steps
        except_handler_def idle_def)

text \<open>
  Claim C9, as the code has it. Take an entry with status \<^verbatim>\<open>error\<close> whose file id has
  no running thread and no sleeping cleanup. Whatever happens next in the process, the
  entry stays as it is, no thread or cleanup for the file id appears, and every request
  for the file id gets the reply "already in progress" with status \<^verbatim>\<open>error\<close> and
  starts no thread.
\<close>

theorem failed_entry_stays:
  assumes "active_downloads s fid = Some e" and "status e = ''error''"
    and "idle fid s" and "fid \<noteq> []"
  shows "let s' = run_events cfg L es s
         in active_downloads s' fid = Some e \<and> idle fid s' \<and>
            (\<forall>d w. req_fileId d = Some fid \<longrightarrow>
               reply (download cfg (active_downloads s') (Inr d)) =
                 ReplyInProgress (''Download already in progress: '' @ str_opt (req_fileName d))
                   ''error'' (progress e) \<and>
               threads (apply_event cfg L s' (Post (Inr d) w)) = threads s')"
proof -
  let ?s = "run_events cfg L es s"
  have k: "idle fid ?s \<and> active_downloads ?s fid = Some e"
    using assms(3) assms(1) by (rule events_keep_idle)
  have r: "reply (download cfg (active_downloads ?s) (Inr d)) =
             ReplyInProgress (''Download already in progress: '' @ str_opt (req_fileName d))
               ''error'' (progress e) \<and>
           threads (apply_event cfg L ?s (Post (Inr d) w)) = threads ?s"
    if "req_fileId d = Some fid" for d w
    using that k assms(2) assms(4) download_present [of d "active_downloads ?s" e cfg]
    by (simp add: truthy_def Let_def)
  show ?thesis
    unfolding Let_def using k r by blast
qed

theorem failed_entry_stays_witness:
  "active_downloads failed_once ''abc'' =
     Some \<lparr>status = ''error'', fileName = Some ''abc.mkv'', progress = 0,
            message = ''Download failed: File not found'', startTime = None, totalSize = None,
            downloadedSize = None, filePath = None, finalSize = None,
            error = Some ''File not found''\<rparr> \<and>
   idle ''abc'' failed_once \<and>
   active_downloads (run_events example_config example_lib
      [Post (Inr example_request) example_world, Run 0, Run 1, Wake 0] failed_once) ''abc'' =
     Some \<lparr>status = ''error'', fileName = Some ''abc.mkv'', progress = 0,
            message = ''Download failed: File not found'', startTime = None, totalSize = None,
            downloadedSize = None, filePath = None, finalSize = None,
            error = Some ''File not found''\<rparr>"
proof -
  note h = failed_once_state
  have st: "status \<lparr>status = ''error'', fileName = Some ''abc.mkv'', progress = 0,
            message = ''Download failed: File not found'', startTime = None, totalSize = None,
            downloadedSize = None, filePath = None, finalSize = None,
            error = Some ''File not found''\<rparr> = ''error''"
    by simp
  have ne: "''abc'' \<noteq> []"
    by simp
  show ?thesis
    using h failed_entry_stays [OF h(1) st h(2) ne, of example_config example_lib
        "[Post (Inr example_request) example_world, Run 0, Run 1, Wake 0]", unfolded Let_def]
    by blast
qed

text \<open>
  Claim C9 as stated fails: of two threads started for \<^verbatim>\<open>abc\<close>, the first completes and
  the second fails; the cleanup of the first removes the failed entry, and the next
  request for \<^verbatim>\<open>abc\<close> starts a third thread.
\<close>

theorem failed_entry_removed_and_retried:
  "map_option status (active_downloads (run_events example_config example_lib
      (first_thread_done refusing_world @ [Run 1, Run 1]) start) ''abc'') = Some ''error'' \<and>
   active_downloads (run_events example_config example_lib
      (first_thread_done refusing_world @ [Run 1, Run 1, Wake 0]) start) ''abc'' = None \<and>
   length (threads (run_events example_config example_lib
      (first_thread_done refusing_world @
         [Run 1, Run 1, Wake 0, Post (Inr example_request) example_world]) start)) = 3"
proof -
  have a: "run_events example_config example_lib
             (first_thread_done refusing_world @ [Run 1, Run 1]) start = second_failed"
    by (simp add: run_events_append after_first_def [symmetric] del: apply_event.simps)
       (simp add: run_events_def second_started_def second_failed_def del: apply_event.simps)
  have b: "run_events example_config example_lib
           (first_thread_done refusing_world @ [Run 1, Run 1, Wake 0]) start =
          apply_event example_config example_lib second_failed (Wake 0)"
    by (simp add: run_events_append after_first_def [symmetric] del: apply_event.simps)
       (simp add: run_events_def second_started_def second_failed_def del: apply_event.simps)
  have c: "run_events example_config example_lib
           (first_thread_done refusing_world @
              [Run 1, Run 1, Wake 0, Post (Inr example_request) example_world]) start =
          apply_event example_config example_lib
            (apply_event example_config example_lib second_failed (Wake 0))
            (Post (Inr example_request) example_world)"
    by (simp add: run_events_append after_first_def [symmetric] del: apply_event.simps)
       (simp add: run_events_def second_started_def second_failed_def del: apply_event.simps)
  show ?thesis
    unfolding a b c by (simp add: second_thread_fails cleanup_def Let_def example_spawn)
qed

end
